theory Spec2Isabelle
  imports Complex_Main "HOL-Library.Sublist" "HOL-Library.Multiset"
begin

section \<open>Strings\<close>

text \<open>
  A Python \<open>str\<close> is modelled as a list of 8-bit characters read as the code points
  U+0000..U+00FF. \<open>lower\<close> follows \<open>str.lower\<close> on that range (A-Z and the
  Latin-1 capitals, without the multiplication sign), \<open>is_space\<close> follows
  \<open>str.isspace\<close>, which is what \<open>str.strip()\<close> removes at both ends, and
  \<open>str_in sub s\<close> is Python's \<open>sub in s\<close>. Python floats are modelled as reals
  and their comparisons, additions and subtractions as the exact ones, with one
  exception: the sums and the divisions of \<open>_select_best\<close> (the average scores, whose
  rounding decides the selection, and the confidence) are the float operations of
  \<open>float_ops\<close> below.
\<close>

definition lower_char :: "char \<Rightarrow> char" where
  "lower_char c =
     (let n = (of_char c :: nat)
      in if (65 \<le> n \<and> n \<le> 90) \<or> (192 \<le> n \<and> n \<le> 222 \<and> n \<noteq> 215)
         then char_of (n + 32) else c)"

definition lower :: "string \<Rightarrow> string" where
  "lower s = map lower_char s"

definition is_space :: "char \<Rightarrow> bool" where
  "is_space c =
     (let n = (of_char c :: nat)
      in (9 \<le> n \<and> n \<le> 13) \<or> (28 \<le> n \<and> n \<le> 32) \<or> n = 133 \<or> n = 160)"

definition strip :: "string \<Rightarrow> string" where
  "strip s = rev (dropWhile is_space (rev (dropWhile is_space s)))"

definition str_in :: "string \<Rightarrow> string \<Rightarrow> bool" where
  "str_in sub s = sublist sub s"

fun digits :: "nat \<Rightarrow> string" where
  "digits n =
     (if n < 10 then [char_of (48 + n)]
      else digits (n div 10) @ [char_of (48 + n mod 10)])"

definition str_of_int :: "int \<Rightarrow> string" where
  "str_of_int i = (if i < 0 then CHR ''-'' # digits (nat (- i)) else digits (nat i))"

text \<open>\<open>sep.join(parts)\<close>.\<close>

fun join :: "string \<Rightarrow> string list \<Rightarrow> string" where
  "join sep [] = []"
| "join sep [p] = p"
| "join sep (p # q # ps) = p @ sep @ join sep (q # ps)"

section \<open>Safety gate (src/safety/gate.py)\<close>

record SafetyResult =
  passed :: bool
  reason :: string
  matched_patterns :: "string list"

text \<open>
  The configuration \<open>_load_config\<close> reads. A compiled pattern is kept as its source
  text (\<open>pattern.pattern\<close>); \<open>re_search p q\<close> stands for
  \<open>re.compile(p, re.IGNORECASE).search(q)\<close> being a match and is a parameter of
  \<open>check\<close>, the regular-expression engine being a library.
\<close>

record SafetyGate =
  blocked_keywords :: "string list"
  blocked_patterns :: "string list"
  allowlist_patterns :: "string list"
  max_query_length :: int
  min_query_length :: int

definition check :: "(string \<Rightarrow> string \<Rightarrow> bool) \<Rightarrow> SafetyGate \<Rightarrow> string \<Rightarrow> SafetyResult" where
  "check re_search g query0 =
     (if query0 = [] \<or> strip query0 = [] then
        \<lparr>passed = False, reason = ''Query is empty'', matched_patterns = []\<rparr>
      else
        let query = strip query0 in
        if int (length query) < min_query_length g then
          \<lparr>passed = False,
           reason = ''Query too short (min '' @ str_of_int (min_query_length g) @ '' chars)'',
           matched_patterns = []\<rparr>
        else if int (length query) > max_query_length g then
          \<lparr>passed = False,
           reason = ''Query too long (max '' @ str_of_int (max_query_length g) @ '' chars)'',
           matched_patterns = []\<rparr>
        else
          let query_lower = lower query in
          (case find (\<lambda>keyword. str_in (lower keyword) query_lower) (blocked_keywords g) of
             Some keyword \<Rightarrow>
               \<lparr>passed = False,
                reason = ''Blocked keyword detected: '' @ [CHR 0x27] @ keyword @ [CHR 0x27],
                matched_patterns = [keyword]\<rparr>
           | None \<Rightarrow>
               let matched = filter (\<lambda>pattern. re_search pattern query) (blocked_patterns g) in
               if matched \<noteq> [] then
                 \<lparr>passed = False, reason = ''Blocked pattern matched'',
                  matched_patterns = matched\<rparr>
               else if list_ex (\<lambda>pattern. re_search pattern query) (allowlist_patterns g) then
                 \<lparr>passed = True, reason = ''Allowlisted query'', matched_patterns = []\<rparr>
               else
                 \<lparr>passed = True, reason = ''Query passed all safety checks'',
                  matched_patterns = []\<rparr>))"

section \<open>Decision data (src/core/decision.py)\<close>

datatype RiskLevel = LOW | MEDIUM | HIGH | CRITICAL

record AgentResponse =
  agent_id :: string
  agent_type :: string
  response_text :: string
  temperature :: real
  generation_time_ms :: int

text \<open>The \<open>scores\<close> dictionary is kept as a list of items in insertion order.\<close>

record JudgeEvaluation =
  judge_id :: string
  judge_type :: string
  target_agent_id :: string
  scores :: "(string \<times> real) list"
  total_score :: real
  reasoning :: string
  flagged_issues :: "string list"

record Decision =
  decision_id :: string
  timestamp :: string
  query :: string
  agent_responses :: "AgentResponse list"
  judge_evaluations :: "JudgeEvaluation list"
  selected_response :: AgentResponse
  confidence_score :: real
  risk_level :: RiskLevel
  identified_risks :: "string list"
  citations :: "string list"
  selection_reasoning :: string
  refined_response :: "AgentResponse option"
  retry_feedback :: string
  processing_time_ms :: int
  safety_passed :: bool
  judge_disagreement :: bool
  was_refined :: bool
  was_retried :: bool

text \<open>
  \<open>BlockedDecision\<close> has fields of the same names as \<open>Decision\<close>; they carry the
  prefix \<open>b_\<close> here.
\<close>

record BlockedDecision =
  b_decision_id :: string
  b_timestamp :: string
  b_query :: string
  b_safety_passed :: bool
  block_reason :: string
  b_matched_patterns :: "string list"

datatype py_error = ValueError | IndexError

text \<open>
  Text the code formats from floats and lists, and the warning sign of the risk messages
  (a character beyond U+00FF), are parameters: \<open>fmt_1f v\<close> is \<open>f"{v:.1f}"\<close>,
  \<open>fmt_float v\<close> is \<open>f"{v}"\<close>, \<open>fmt_pct0 v\<close> is \<open>f"{v:.0%}"\<close> and
  \<open>repr_list xs\<close> is \<open>f"{xs}"\<close>.
\<close>

text \<open>
  The float operations of an average: \<open>fadd x y\<close> is the float sum \<open>x + y\<close> and
  \<open>fdiv x y\<close> the float quotient \<open>x / y\<close>, each with its rounding. They are
  parameters; \<open>sum(scores)\<close> adds the scores to 0 one after the other, in list order.
\<close>

record float_ops =
  fadd :: "real \<Rightarrow> real \<Rightarrow> real"
  fdiv :: "real \<Rightarrow> real \<Rightarrow> real"

definition py_sum :: "float_ops \<Rightarrow> real list \<Rightarrow> real" where
  "py_sum ops xs = foldl (fadd ops) 0 xs"

record formatters =
  fmt_1f :: "real \<Rightarrow> string"
  fmt_float :: "real \<Rightarrow> string"
  fmt_pct0 :: "real \<Rightarrow> string"
  repr_list :: "string list \<Rightarrow> string"
  warn_sign :: string

section \<open>Selection (src/core/council.py, \<open>_select_best\<close>)\<close>

text \<open>
  A dictionary whose order matters is its list of items in insertion order.
  \<open>dict_extend d k vs\<close> is \<open>if k not in d: d[k] = []\<close> followed by
  \<open>d[k].extend(vs)\<close>.
\<close>

fun dict_extend :: "('k \<times> 'v list) list \<Rightarrow> 'k \<Rightarrow> 'v list \<Rightarrow> ('k \<times> 'v list) list" where
  "dict_extend [] k vs = [(k, vs)]"
| "dict_extend ((k', ws) # d) k vs =
     (if k' = k then (k', ws @ vs) # d else (k', ws) # dict_extend d k vs)"

definition agent_scores_of :: "JudgeEvaluation list \<Rightarrow> (string \<times> real list) list" where
  "agent_scores_of evaluations =
     fold (\<lambda>e d. dict_extend d (target_agent_id e) [total_score e]) evaluations []"

definition agent_issues_of :: "JudgeEvaluation list \<Rightarrow> (string \<times> string list) list" where
  "agent_issues_of evaluations =
     fold (\<lambda>e d. dict_extend d (target_agent_id e) (flagged_issues e)) evaluations []"

definition avg_scores_of :: "float_ops \<Rightarrow> JudgeEvaluation list \<Rightarrow> (string \<times> real) list" where
  "avg_scores_of ops evaluations =
     map (\<lambda>(aid, ss). (aid, fdiv ops (py_sum ops ss) (real (length ss))))
       (agent_scores_of evaluations)"

text \<open>\<open>max(values)\<close>: ValueError on an empty sequence.\<close>

fun py_max :: "real list \<Rightarrow> py_error + real" where
  "py_max [] = Inl ValueError"
| "py_max (v # vs) = Inr (fold (\<lambda>x m. if m < x then x else m) vs v)"

definition has_safety_marker :: "string \<Rightarrow> bool" where
  "has_safety_marker aid = (str_in ''safety'' (lower aid) \<or> str_in ''advocate'' (lower aid))"

definition select_best ::
  "float_ops \<Rightarrow> formatters \<Rightarrow> AgentResponse list \<Rightarrow> JudgeEvaluation list
     \<Rightarrow> py_error + (AgentResponse \<times> real \<times> string)" where
  "select_best ops fmt responses evaluations =
     (let avg_scores = avg_scores_of ops evaluations;
          agent_issues = agent_issues_of evaluations
      in case py_max (map snd avg_scores) of
           Inl err \<Rightarrow> Inl err
         | Inr best_score \<Rightarrow>
             let top_agents = map fst (filter (\<lambda>(aid, score). score = best_score) avg_scores)
             in (case top_agents of
                   [] \<Rightarrow> Inl IndexError
                 | first # _ \<Rightarrow>
                     let best_agent_id =
                           (case find has_safety_marker top_agents of
                              Some aid \<Rightarrow> aid | None \<Rightarrow> first);
                         found =
                           (case find (\<lambda>response. agent_id response = best_agent_id) responses of
                              Some response \<Rightarrow> Inr response
                            | None \<Rightarrow>
                                (case responses of
                                   [] \<Rightarrow> Inl IndexError
                                 | response # _ \<Rightarrow> Inr response))
                     in (case found of
                           Inl err \<Rightarrow> Inl err
                         | Inr best_response \<Rightarrow>
                             let confidence = fdiv ops best_score 10;
                                 scores_str =
                                   join '', ''
                                     (map (\<lambda>(k, v). k @ '': '' @ fmt_1f fmt v)
                                        (sort_key (\<lambda>x. - snd x) avg_scores));
                                 issues =
                                   (case map_of agent_issues best_agent_id of
                                      Some i \<Rightarrow> i | None \<Rightarrow> []);
                                 issues_str =
                                   (if issues \<noteq> [] then '' Issues: '' @ repr_list fmt issues
                                    else [])
                             in Inr (best_response, confidence,
                                     ''Selected '' @ agent_type best_response
                                       @ '' with highest average score. Scores: ''
                                       @ scores_str @ ''.'' @ issues_str))))"

text \<open>
  The notions the statements about selection use: the agents in the order in which the
  evaluation list first names them, an agent's average total score as the code computes
  it (the float sum of its totals in list order, divided by their number), and the agents
  tied at the best average, in that order.
\<close>

fun first_seen :: "'a list \<Rightarrow> 'a list" where
  "first_seen [] = []"
| "first_seen (x # xs) = x # filter (\<lambda>y. y \<noteq> x) (first_seen xs)"

definition totals_for :: "JudgeEvaluation list \<Rightarrow> string \<Rightarrow> real list" where
  "totals_for evaluations a =
     map total_score (filter (\<lambda>e. target_agent_id e = a) evaluations)"

definition avg_of :: "float_ops \<Rightarrow> JudgeEvaluation list \<Rightarrow> string \<Rightarrow> real" where
  "avg_of ops evaluations a =
     fdiv ops (py_sum ops (totals_for evaluations a)) (real (length (totals_for evaluations a)))"

definition evaluated_agents :: "JudgeEvaluation list \<Rightarrow> string list" where
  "evaluated_agents evaluations = first_seen (map target_agent_id evaluations)"

definition tied_agents :: "float_ops \<Rightarrow> JudgeEvaluation list \<Rightarrow> string list" where
  "tied_agents ops evaluations =
     filter (\<lambda>b. list_all (\<lambda>c. avg_of ops evaluations c \<le> avg_of ops evaluations b)
                   (evaluated_agents evaluations))
       (evaluated_agents evaluations)"

section \<open>Judge disagreement (src/judges/evaluators.py, \<open>check_judge_disagreement\<close>)\<close>

text \<open>\<open>d[k] = v\<close> on a dictionary kept as its items in insertion order.\<close>

fun dict_set :: "('k \<times> 'v) list \<Rightarrow> 'k \<Rightarrow> 'v \<Rightarrow> ('k \<times> 'v) list" where
  "dict_set [] k v = [(k, v)]"
| "dict_set ((k', w) # d) k v =
     (if k' = k then (k', v) # d else (k', w) # dict_set d k v)"

text \<open>\<open>max\<close> and \<open>min\<close> of the non-empty sequence \<open>v, vs\<close>.\<close>

definition max_of :: "real \<Rightarrow> real list \<Rightarrow> real" where
  "max_of v vs = fold (\<lambda>x m. if m < x then x else m) vs v"

definition min_of :: "real \<Rightarrow> real list \<Rightarrow> real" where
  "min_of v vs = fold (\<lambda>x m. if x < m then x else m) vs v"

text \<open>
  The dictionary \<open>agent_scores\<close> of the function: for each target agent, a dictionary
  from judge type to total score; \<open>agent_scores[agent_id][eval.judge_type] =
  eval.total_score\<close> after creating the inner dictionary on first use.
\<close>

definition judge_scores_of ::
  "JudgeEvaluation list \<Rightarrow> (string \<times> (string \<times> real) list) list" where
  "judge_scores_of evaluations =
     fold (\<lambda>e d.
             dict_set d (target_agent_id e)
               (dict_set (case map_of d (target_agent_id e) of None \<Rightarrow> [] | Some inner \<Rightarrow> inner)
                  (judge_type e) (total_score e)))
       evaluations []"

definition check_judge_disagreement :: "JudgeEvaluation list \<Rightarrow> real \<Rightarrow> bool" where
  "check_judge_disagreement evaluations threshold =
     list_ex (\<lambda>(aid, inner).
                2 \<le> length inner \<and>
                (case map snd inner of
                   [] \<Rightarrow> False
                 | v # vs \<Rightarrow> threshold < max_of v vs - min_of v vs))
       (judge_scores_of evaluations)"

definition default_threshold :: real where
  "default_threshold = 3"

text \<open>
  The notions the statement about disagreement uses: the judge types that scored an
  agent, in order of first appearance, and the agent's totals, one per such judge type,
  each the total of the last evaluation of that type for the agent.
\<close>

definition judge_types_for :: "JudgeEvaluation list \<Rightarrow> string \<Rightarrow> string list" where
  "judge_types_for evaluations a =
     first_seen (map judge_type (filter (\<lambda>e. target_agent_id e = a) evaluations))"

definition latest_total :: "JudgeEvaluation list \<Rightarrow> string \<Rightarrow> string \<Rightarrow> real" where
  "latest_total evaluations a jt =
     total_score (last (filter (\<lambda>e. target_agent_id e = a \<and> judge_type e = jt) evaluations))"

definition judge_totals :: "JudgeEvaluation list \<Rightarrow> string \<Rightarrow> real list" where
  "judge_totals evaluations a =
     map (latest_total evaluations a) (judge_types_for evaluations a)"

text \<open>The inner dictionary of an agent, as items in insertion order.\<close>

definition inner_of :: "JudgeEvaluation list \<Rightarrow> string \<Rightarrow> (string \<times> real) list" where
  "inner_of evaluations a =
     map (\<lambda>jt. (jt, latest_total evaluations a jt)) (judge_types_for evaluations a)"

section \<open>Judge feedback and risk (src/core/council.py)\<close>

definition get_judge_feedback :: "JudgeEvaluation list \<Rightarrow> AgentResponse \<Rightarrow> string" where
  "get_judge_feedback evaluations selected =
     (let feedback_parts =
            concat (map (\<lambda>e.
              if target_agent_id e = agent_id selected then
                if flagged_issues e \<noteq> [] then
                  [judge_type e @ '' Judge: '' @ join ''; '' (flagged_issues e)]
                else if reasoning e \<noteq> [] then
                  [judge_type e @ '' Judge: '' @ reasoning e]
                else []
              else []) evaluations)
      in if feedback_parts \<noteq> [] then join '' | '' feedback_parts else [])"

definition harm_marker :: "string \<Rightarrow> bool" where
  "harm_marker r = (str_in ''harmful'' (lower r) \<or> str_in ''dangerous'' (lower r))"

definition safety_concerns_of :: "formatters \<Rightarrow> JudgeEvaluation list \<Rightarrow> string list" where
  "safety_concerns_of fmt evaluations =
     concat (map (\<lambda>e.
       if judge_type e = ''Safety'' then
         map (\<lambda>(dim, score). ''Low '' @ dim @ '' score: '' @ fmt_float fmt score)
           (filter (\<lambda>(dim, score). score < 5) (scores e))
       else []) evaluations)"

definition collect_risks :: "formatters \<Rightarrow> JudgeEvaluation list \<Rightarrow> string list" where
  "collect_risks fmt evaluations =
     fold (\<lambda>issue risks. if List.member risks issue then risks else risks @ [issue])
       (concat (map flagged_issues evaluations))
       (safety_concerns_of fmt evaluations)"

definition assess_risk ::
  "formatters \<Rightarrow> JudgeEvaluation list \<Rightarrow> real \<Rightarrow> bool \<Rightarrow> RiskLevel \<times> string list" where
  "assess_risk fmt evaluations confidence disagreement =
     (let risks = collect_risks fmt evaluations
      in if list_ex harm_marker risks then (CRITICAL, risks)
         else if 4 \<le> length risks \<or> confidence < 4 / 10 then (HIGH, risks)
         else if 2 \<le> length risks \<or> confidence < 6 / 10 \<or> disagreement then (MEDIUM, risks)
         else (LOW, risks))"

section \<open>Citations (src/core/council.py, \<open>_extract_citations\<close>)\<close>

text \<open>
  The four regular expressions of the function, in the order in which it applies them:
  the URL pattern, then "according to X", "source: X" and "cited from X" (the last three
  with \<open>re.IGNORECASE\<close>). \<open>findall p text\<close> stands for \<open>re.findall\<close> with that
  pattern and is a parameter.
\<close>

datatype citation_pattern = UrlPattern | AccordingTo | SourceColon | CitedFrom

definition raw_citations :: "(citation_pattern \<Rightarrow> string \<Rightarrow> string list) \<Rightarrow> string \<Rightarrow> string list" where
  "raw_citations findall text =
     findall UrlPattern text
       @ concat (map (\<lambda>pattern. findall pattern text) [AccordingTo, SourceColon, CitedFrom])"

definition dedup_step :: "string \<Rightarrow> string set \<times> string list \<Rightarrow> string set \<times> string list" where
  "dedup_step c st =
     (case st of (seen, unique) \<Rightarrow>
        if lower c \<in> seen then (seen, unique) else (insert (lower c) seen, unique @ [c]))"

definition extract_citations :: "(citation_pattern \<Rightarrow> string \<Rightarrow> string list) \<Rightarrow> string \<Rightarrow> string list" where
  "extract_citations findall text =
     (let citations = raw_citations findall text;
          unique = snd (fold dedup_step citations ({}, []))
      in take 10 unique)"

text \<open>The first element of each class of \<open>f\<close>, in order.\<close>

fun first_by :: "('a \<Rightarrow> 'b) \<Rightarrow> 'a list \<Rightarrow> 'a list" where
  "first_by f [] = []"
| "first_by f (x # xs) = x # filter (\<lambda>y. f y \<noteq> f x) (first_by f xs)"

section \<open>Synthesizer (src/core/synthesizer.py)\<close>

text \<open>
  \<open>Synthesizer.refine\<close>. The parameter \<open>backend\<close> stands for the part of the
  method that talks to the model: \<open>_ensure_initialized\<close> (which raises ValueError when
  no API key is set), the prompt, the call inside \<open>try\<close> with its fallback to the
  winner's text, and the clock; it yields the refined text and the time taken.
\<close>

definition refine ::
  "(string \<Rightarrow> AgentResponse \<Rightarrow> AgentResponse list \<Rightarrow> string \<Rightarrow> py_error + (string \<times> int))
     \<Rightarrow> string \<Rightarrow> AgentResponse \<Rightarrow> AgentResponse list \<Rightarrow> string
     \<Rightarrow> py_error + AgentResponse" where
  "refine backend query0 winner all_responses judge_feedback =
     (let others = filter (\<lambda>r. agent_id r \<noteq> agent_id winner) all_responses
      in if others = [] then Inr winner
         else (case backend query0 winner others judge_feedback of
                 Inl err \<Rightarrow> Inl err
               | Inr (refined_text, ms) \<Rightarrow>
                   Inr \<lparr>agent_id = agent_id winner @ ''_refined'',
                        agent_type = agent_type winner @ '' (Refined)'',
                        response_text = refined_text,
                        temperature = temperature winner,
                        generation_time_ms = ms\<rparr>))"

text \<open>\<open>MockSynthesizer.refine\<close>, which has no early return; \<open>ms\<close> is the time taken.\<close>

definition mock_refine ::
  "int \<Rightarrow> string \<Rightarrow> AgentResponse \<Rightarrow> AgentResponse list \<Rightarrow> string \<Rightarrow> py_error + AgentResponse" where
  "mock_refine ms query0 winner all_responses judge_feedback =
     (let others = filter (\<lambda>r. agent_id r \<noteq> agent_id winner) all_responses
      in Inr \<lparr>agent_id = agent_id winner @ ''_refined'',
              agent_type = agent_type winner @ '' (Refined)'',
              response_text =
                response_text winner @ [CHR 0x0A, CHR 0x0A] @ ''---'' @ [CHR 0x0A]
                  @ ''[SYNTHESIS NOTE: This response has been refined by considering ''
                  @ str_of_int (int (length others)) @ '' alternative perspectives]''
                  @ [CHR 0x0A],
              temperature = temperature winner,
              generation_time_ms = ms\<rparr>)"

section \<open>Audit log (src/audit/logger.py, \<open>to_dict\<close> of src/core/decision.py)\<close>

text \<open>
  A value that \<open>json.dumps\<close> writes; a dictionary is its items in insertion order.
\<close>

datatype json =
  JNull | JBool bool | JInt int | JNum real | JStr string
  | JList "json list" | JDict "(string \<times> json) list"

datatype outcome = Decided Decision | Blocked BlockedDecision

definition risk_level_value :: "RiskLevel \<Rightarrow> string" where
  "risk_level_value l =
     (case l of LOW \<Rightarrow> ''LOW'' | MEDIUM \<Rightarrow> ''MEDIUM'' | HIGH \<Rightarrow> ''HIGH'' | CRITICAL \<Rightarrow> ''CRITICAL'')"

definition agent_response_to_dict :: "AgentResponse \<Rightarrow> json" where
  "agent_response_to_dict r =
     JDict [(''agent_id'', JStr (agent_id r)),
            (''agent_type'', JStr (agent_type r)),
            (''response_text'', JStr (response_text r)),
            (''temperature'', JNum (temperature r)),
            (''generation_time_ms'', JInt (generation_time_ms r))]"

definition judge_evaluation_to_dict :: "JudgeEvaluation \<Rightarrow> json" where
  "judge_evaluation_to_dict e =
     JDict [(''judge_id'', JStr (judge_id e)),
            (''judge_type'', JStr (judge_type e)),
            (''target_agent_id'', JStr (target_agent_id e)),
            (''scores'', JDict (map (\<lambda>(dim, score). (dim, JNum score)) (scores e))),
            (''total_score'', JNum (total_score e)),
            (''reasoning'', JStr (reasoning e)),
            (''flagged_issues'', JList (map JStr (flagged_issues e)))]"

text \<open>
  \<open>Decision.to_dict\<close>. \<open>get_agent_scores\<close> builds the same dictionary of averages as
  \<open>_select_best\<close>, with the same statements.
\<close>

definition decision_to_dict :: "float_ops \<Rightarrow> Decision \<Rightarrow> json" where
  "decision_to_dict ops d =
     JDict [(''decision_id'', JStr (decision_id d)),
            (''timestamp'', JStr (timestamp d)),
            (''query'', JStr (query d)),
            (''agent_responses'', JList (map agent_response_to_dict (agent_responses d))),
            (''judge_evaluations'', JList (map judge_evaluation_to_dict (judge_evaluations d))),
            (''selected_response'', agent_response_to_dict (selected_response d)),
            (''refined_response'',
               (case refined_response d of
                  Some r \<Rightarrow> agent_response_to_dict r | None \<Rightarrow> JNull)),
            (''confidence_score'', JNum (confidence_score d)),
            (''risk_level'', JStr (risk_level_value (risk_level d))),
            (''identified_risks'', JList (map JStr (identified_risks d))),
            (''citations'', JList (map JStr (citations d))),
            (''selection_reasoning'', JStr (selection_reasoning d)),
            (''retry_feedback'', JStr (retry_feedback d)),
            (''processing_time_ms'', JInt (processing_time_ms d)),
            (''safety_passed'', JBool (safety_passed d)),
            (''judge_disagreement'', JBool (judge_disagreement d)),
            (''was_refined'', JBool (was_refined d)),
            (''was_retried'', JBool (was_retried d)),
            (''agent_scores'',
               JDict (map (\<lambda>(aid, avg). (aid, JNum avg)) (avg_scores_of ops (judge_evaluations d))))]"

text \<open>
  \<open>_hash_query\<close>: the first 16 characters of the hexadecimal SHA-256 digest; the digest
  function (hashlib) is the parameter \<open>sha256_hex\<close>.
\<close>

definition hash_query :: "(string \<Rightarrow> string) \<Rightarrow> string \<Rightarrow> string" where
  "hash_query sha256_hex q = take 16 (sha256_hex q)"

text \<open>\<open>entry.update(items)\<close>.\<close>

definition dict_update :: "('k \<times> 'v) list \<Rightarrow> ('k \<times> 'v) list \<Rightarrow> ('k \<times> 'v) list" where
  "dict_update d items' = fold (\<lambda>(k, v) d'. dict_set d' k v) items' d"

text \<open>
  The entry \<open>AuditLogger.log\<close> writes; \<open>log_now\<close> is \<open>datetime.now().isoformat()\<close>
  at the time of logging.
\<close>

definition audit_entry ::
  "float_ops \<Rightarrow> (string \<Rightarrow> string) \<Rightarrow> string \<Rightarrow> outcome \<Rightarrow> json" where
  "audit_entry ops sha256_hex log_now decision =
     (case decision of
        Decided d \<Rightarrow>
          JDict (dict_update
            [(''log_timestamp'', JStr log_now),
             (''decision_id'', JStr (decision_id d)),
             (''query_hash'', JStr (hash_query sha256_hex (query d))),
             (''safety_passed'', JBool (safety_passed d))]
            [(''type'', JStr ''decision''),
             (''selected_agent'', JStr (agent_type (selected_response d))),
             (''confidence'', JNum (confidence_score d)),
             (''risk_level'', JStr (risk_level_value (risk_level d))),
             (''risks'', JList (map JStr (identified_risks d))),
             (''processing_time_ms'', JInt (processing_time_ms d)),
             (''was_refined'', JBool (was_refined d)),
             (''was_retried'', JBool (was_retried d)),
             (''judge_disagreement'', JBool (judge_disagreement d)),
             (''full_decision'', decision_to_dict ops d)])
      | Blocked b \<Rightarrow>
          JDict (dict_update
            [(''log_timestamp'', JStr log_now),
             (''decision_id'', JStr (b_decision_id b)),
             (''query_hash'', JStr (hash_query sha256_hex (b_query b))),
             (''safety_passed'', JBool (b_safety_passed b))]
            [(''type'', JStr ''blocked''),
             (''block_reason'', JStr (block_reason b)),
             (''matched_patterns'', JList (map JStr (b_matched_patterns b)))]))"

text \<open>
  \<open>AuditLogger.log\<close>: the file is the list of the entries written so far, one per line;
  the call appends one entry and returns the decision's identifier.
\<close>

definition audit_log ::
  "float_ops \<Rightarrow> (string \<Rightarrow> string) \<Rightarrow> string \<Rightarrow> outcome \<Rightarrow> json list
     \<Rightarrow> json list \<times> string" where
  "audit_log ops sha256_hex log_now decision file =
     (file @ [audit_entry ops sha256_hex log_now decision],
      (case decision of Decided d \<Rightarrow> decision_id d | Blocked b \<Rightarrow> b_decision_id b))"

text \<open>Every string value that occurs anywhere in a JSON value.\<close>

fun json_strings :: "json \<Rightarrow> string list" where
  "json_strings JNull = []"
| "json_strings (JBool b) = []"
| "json_strings (JInt i) = []"
| "json_strings (JNum x) = []"
| "json_strings (JStr s) = [s]"
| "json_strings (JList xs) = concat (map json_strings xs)"
| "json_strings (JDict kvs) = concat (map (\<lambda>kv. json_strings (snd kv)) kvs)"

section \<open>The council (src/core/council.py)\<close>

text \<open>
  What an \<open>LLMCouncil\<close> holds. The agents, the judges, the synthesizer, the regular
  expressions and the hash are given by what they return:
  \<^item> \<open>c_run_agents q\<close> is \<open>run_agents_parallel(self.agents, q)\<close>, which raises when
    an agent's client cannot be initialised;
  \<^item> \<open>c_run_judges q responses\<close> is \<open>run_judges_on_responses(self.judges, q,
    responses)\<close>, likewise;
  \<^item> \<open>c_synthesizer\<close> is \<open>self.synthesizer.refine\<close> (an instance of \<open>refine\<close> or of
    \<open>mock_refine\<close>);
  \<^item> \<open>c_stream_done q k\<close> tells whether all streaming tasks are done when the polling
    loop of \<open>decide_generator\<close> tests its condition for the \<open>k\<close>-th time (from 0), and
    \<open>c_stream_snapshot q k\<close> is the content of the response buffers at that moment.
\<close>

record council =
  c_gate :: SafetyGate
  c_search :: "string \<Rightarrow> string \<Rightarrow> bool"
  c_run_agents :: "string \<Rightarrow> py_error + AgentResponse list"
  c_run_judges :: "string \<Rightarrow> AgentResponse list \<Rightarrow> py_error + JudgeEvaluation list"
  c_synthesizer ::
    "string \<Rightarrow> AgentResponse \<Rightarrow> AgentResponse list \<Rightarrow> string \<Rightarrow> py_error + AgentResponse"
  c_stream_done :: "string \<Rightarrow> nat \<Rightarrow> bool"
  c_stream_snapshot :: "string \<Rightarrow> nat \<Rightarrow> AgentResponse list"
  c_findall :: "citation_pattern \<Rightarrow> string \<Rightarrow> string list"
  c_formatters :: formatters
  c_float_ops :: float_ops
  c_sha256_hex :: "string \<Rightarrow> string"
  confidence_threshold :: real
  max_retries :: int
  skip_synthesis :: bool

text \<open>
  What one run reads from outside: the fresh identifier
  (\<open>str(uuid.uuid4())[:8]\<close>), the time stamps and the elapsed time.
\<close>

record run_clock =
  new_decision_id :: string
  now_iso :: string
  log_now_iso :: string
  elapsed_ms :: int

text \<open>Step 5: the first synthesis, unless skipped.\<close>

definition synthesis_step ::
  "council \<Rightarrow> string \<Rightarrow> AgentResponse \<Rightarrow> AgentResponse list
     \<Rightarrow> py_error + (AgentResponse \<times> bool)" where
  "synthesis_step c q selected responses =
     (if skip_synthesis c then Inr (selected, False)
      else (case c_synthesizer c q selected responses [] of
              Inl err \<Rightarrow> Inl err
            | Inr refined \<Rightarrow> Inr (refined, True)))"

text \<open>
  Step 6: the retry branch. The result is the refined response, \<open>was_retried\<close>,
  \<open>retry_feedback\<close> and the confidence after the step.
\<close>

definition retry_step ::
  "council \<Rightarrow> string \<Rightarrow> AgentResponse \<Rightarrow> AgentResponse list \<Rightarrow> JudgeEvaluation list
     \<Rightarrow> real \<Rightarrow> AgentResponse \<Rightarrow> py_error + (AgentResponse \<times> bool \<times> string \<times> real)" where
  "retry_step c q selected responses evaluations confidence refined =
     (if confidence < confidence_threshold c \<and> 0 < max_retries c then
        let feedback = get_judge_feedback evaluations selected
        in if feedback \<noteq> [] then
             (case c_synthesizer c q selected responses feedback of
                Inl err \<Rightarrow> Inl err
              | Inr refined' \<Rightarrow> Inr (refined', True, feedback, min 1 (confidence + 1 / 10)))
           else Inr (refined, False, feedback, confidence)
      else Inr (refined, False, [], confidence))"

text \<open>Step 7: risk assessment and the two warnings.\<close>

definition risk_step ::
  "council \<Rightarrow> JudgeEvaluation list \<Rightarrow> real \<Rightarrow> bool \<Rightarrow> RiskLevel \<times> string list" where
  "risk_step c evaluations confidence disagreement =
     (case assess_risk (c_formatters c) evaluations confidence disagreement of
        (level, risks) \<Rightarrow>
          let low = (confidence < confidence_threshold c \<and> level \<noteq> CRITICAL);
              risks1 =
                (if low then
                   risks @ [warn_sign (c_formatters c) @ '' LOW CONFIDENCE (''
                              @ fmt_pct0 (c_formatters c) confidence
                              @ ''): Human review recommended'']
                 else risks);
              level1 = (if low \<and> level = LOW then MEDIUM else level);
              risks2 =
                (if disagreement then
                   risks1 @ [warn_sign (c_formatters c)
                               @ '' JUDGES DISAGREE: Different judges rated this differently'']
                 else risks1)
          in (level1, risks2))"

text \<open>
  Steps 4 to 8, from the selection to the \<open>Decision\<close> object. \<open>decide\<close> and
  \<open>decide_generator\<close> have the same statements for them.
\<close>

definition complete_decision ::
  "council \<Rightarrow> run_clock \<Rightarrow> string \<Rightarrow> AgentResponse list \<Rightarrow> JudgeEvaluation list \<Rightarrow> bool
     \<Rightarrow> py_error + Decision" where
  "complete_decision c clock q responses evaluations disagreement =
     (case select_best (c_float_ops c) (c_formatters c) responses evaluations of
        Inl err \<Rightarrow> Inl err
      | Inr (selected, confidence, why) \<Rightarrow>
          (case synthesis_step c q selected responses of
             Inl err \<Rightarrow> Inl err
           | Inr (refined, refined_flag) \<Rightarrow>
               (case retry_step c q selected responses evaluations confidence refined of
                  Inl err \<Rightarrow> Inl err
                | Inr (refined', retried_flag, feedback, confidence') \<Rightarrow>
                    (case risk_step c evaluations confidence' disagreement of
                       (level, risks) \<Rightarrow>
                         Inr \<lparr>decision_id = new_decision_id clock,
                              timestamp = now_iso clock,
                              query = q,
                              agent_responses = responses,
                              judge_evaluations = evaluations,
                              selected_response = selected,
                              confidence_score = confidence',
                              risk_level = level,
                              identified_risks = risks,
                              citations = extract_citations (c_findall c) (response_text refined'),
                              selection_reasoning = why,
                              refined_response = Some refined',
                              retry_feedback = feedback,
                              processing_time_ms = elapsed_ms clock,
                              safety_passed = True,
                              judge_disagreement = disagreement,
                              was_refined = refined_flag,
                              was_retried = retried_flag\<rparr>))))"

definition blocked_decision :: "run_clock \<Rightarrow> string \<Rightarrow> SafetyResult \<Rightarrow> BlockedDecision" where
  "blocked_decision clock q safety_result =
     \<lparr>b_decision_id = new_decision_id clock,
      b_timestamp = now_iso clock,
      b_query = q,
      b_safety_passed = False,
      block_reason = reason safety_result,
      b_matched_patterns = matched_patterns safety_result\<rparr>"

text \<open>
  \<open>decide\<close>: the result and the audit file after the run, or the error that the run
  raises.
\<close>

definition decide ::
  "council \<Rightarrow> run_clock \<Rightarrow> string \<Rightarrow> json list \<Rightarrow> py_error + (outcome \<times> json list)" where
  "decide c clock q file =
     (let safety_result = check (c_search c) (c_gate c) q
      in if \<not> passed safety_result then
           let blocked = Blocked (blocked_decision clock q safety_result)
           in Inr (blocked, fst (audit_log (c_float_ops c) (c_sha256_hex c) (log_now_iso clock) blocked file))
         else
           (case c_run_agents c q of
              Inl err \<Rightarrow> Inl err
            | Inr responses \<Rightarrow>
                (case c_run_judges c q responses of
                   Inl err \<Rightarrow> Inl err
                 | Inr evaluations \<Rightarrow>
                     (case complete_decision c clock q responses evaluations
                             (check_judge_disagreement evaluations default_threshold) of
                        Inl err \<Rightarrow> Inl err
                      | Inr d \<Rightarrow>
                          Inr (Decided d,
                               fst (audit_log (c_float_ops c) (c_sha256_hex c) (log_now_iso clock)
                                      (Decided d) file))))))"

section \<open>Staged execution (\<open>decide_generator\<close>)\<close>

text \<open>
  The asynchronous generator is the state machine that Python makes of it: a state is a
  point at which the generator is suspended, and \<open>gen_next\<close> runs it from there to the
  next \<open>yield\<close> (an event), to its end (\<open>None\<close>, StopAsyncIteration) or to an error
  that propagates to the consumer.
\<close>

datatype event =
  EvStart
  | EvBlocked BlockedDecision
  | EvAgents "AgentResponse list"
  | EvJudges "AgentResponse list" "JudgeEvaluation list"
  | EvFinal Decision

definition stage :: "event \<Rightarrow> string" where
  "stage ev =
     (case ev of
        EvStart \<Rightarrow> ''start''
      | EvBlocked b \<Rightarrow> ''blocked''
      | EvAgents rs \<Rightarrow> ''agents''
      | EvJudges rs es \<Rightarrow> ''judges''
      | EvFinal d \<Rightarrow> ''final'')"

datatype gen_state =
  NotStarted
  | AfterStart
  | Polling nat
  | AfterAgents "AgentResponse list"
  | AfterJudges "AgentResponse list" "JudgeEvaluation list" bool
  | Finished

text \<open>
  One test of the loop condition \<open>while not all(t.done() for t in tasks)\<close>, number
  \<open>k\<close>: inside the loop the generator yields the buffers and suspends; after the loop it
  yields them once more.
\<close>

definition poll :: "council \<Rightarrow> string \<Rightarrow> nat \<Rightarrow> event \<times> gen_state" where
  "poll c q k =
     (if \<not> c_stream_done c q k then (EvAgents (c_stream_snapshot c q k), Polling (Suc k))
      else (EvAgents (c_stream_snapshot c q k), AfterAgents (c_stream_snapshot c q k)))"

fun gen_next ::
  "council \<Rightarrow> run_clock \<Rightarrow> string \<Rightarrow> gen_state \<Rightarrow> json list
     \<Rightarrow> py_error + (event option \<times> gen_state \<times> json list)" where
  "gen_next c clock q NotStarted file = Inr (Some EvStart, AfterStart, file)"
| "gen_next c clock q AfterStart file =
     (let safety_result = check (c_search c) (c_gate c) q
      in if \<not> passed safety_result then
           let blocked = blocked_decision clock q safety_result
           in Inr (Some (EvBlocked blocked), Finished,
                   fst (audit_log (c_float_ops c) (c_sha256_hex c) (log_now_iso clock) (Blocked blocked) file))
         else (case poll c q 0 of (ev, s) \<Rightarrow> Inr (Some ev, s, file)))"
| "gen_next c clock q (Polling k) file =
     (case poll c q k of (ev, s) \<Rightarrow> Inr (Some ev, s, file))"
| "gen_next c clock q (AfterAgents responses) file =
     (case c_run_judges c q responses of
        Inl err \<Rightarrow> Inl err
      | Inr evaluations \<Rightarrow>
          Inr (Some (EvJudges responses evaluations),
               AfterJudges responses evaluations
                 (check_judge_disagreement evaluations default_threshold),
               file))"
| "gen_next c clock q (AfterJudges responses evaluations disagreement) file =
     (case complete_decision c clock q responses evaluations disagreement of
        Inl err \<Rightarrow> Inl err
      | Inr d \<Rightarrow>
          Inr (Some (EvFinal d), Finished,
               fst (audit_log (c_float_ops c) (c_sha256_hex c) (log_now_iso clock) (Decided d) file)))"
| "gen_next c clock q Finished file = Inr (None, Finished, file)"

text \<open>
  What a consumer sees that asks for at most \<open>n\<close> items: the events in order, and how
  the iteration stood when it stopped.
\<close>

datatype run_status = Suspended | Exhausted | Raised py_error

fun gen_run ::
  "council \<Rightarrow> run_clock \<Rightarrow> string \<Rightarrow> nat \<Rightarrow> gen_state \<Rightarrow> json list
     \<Rightarrow> event list \<times> run_status" where
  "gen_run c clock q 0 s file = ([], Suspended)"
| "gen_run c clock q (Suc n) s file =
     (case gen_next c clock q s file of
        Inl err \<Rightarrow> ([], Raised err)
      | Inr (None, s', file') \<Rightarrow> ([], Exhausted)
      | Inr (Some ev, s', file') \<Rightarrow>
          (case gen_run c clock q n s' file' of (evs, st) \<Rightarrow> (ev # evs, st)))"

definition decide_generator ::
  "council \<Rightarrow> run_clock \<Rightarrow> string \<Rightarrow> nat \<Rightarrow> json list \<Rightarrow> event list \<times> run_status" where
  "decide_generator c clock q n file = gen_run c clock q n NotStarted file"

text \<open>The stage sequences the interface allows.\<close>

definition valid_stages :: "string list \<Rightarrow> bool" where
  "valid_stages ss =
     (ss = [''start'', ''blocked'']
      \<or> (\<exists>m. 1 \<le> m \<and> ss = ''start'' # replicate m ''agents'' @ [''judges'', ''final'']))"



section \<open>Example inputs\<close>

definition match_all :: "string \<Rightarrow> string \<Rightarrow> bool" where
  "match_all pattern text = True"

definition gate_example :: SafetyGate where
  "gate_example =
     \<lparr>blocked_keywords = [''Bomb''], blocked_patterns = [],
      allowlist_patterns = [''.*''], max_query_length = 1000, min_query_length = 3\<rparr>"

definition gate_padded :: SafetyGate where
  "gate_padded =
     \<lparr>blocked_keywords = [''hack ''], blocked_patterns = [],
      allowlist_patterns = [''.*''], max_query_length = 1000, min_query_length = 3\<rparr>"

text \<open>
  The float operations of IEEE 754 binary64 with rounding to nearest, ties to even, for
  magnitudes from \<open>1 / 2 ^ 64\<close> up to \<open>2 ^ 64\<close> (far more than scores between 0 and 10
  need). \<open>log2_floor n x\<close> is the binary exponent of a positive \<open>x\<close>: it halves or doubles
  \<open>x\<close> until it lies between 1 and 2, at most \<open>n\<close> times. \<open>rint\<close> rounds to the nearest
  integer, a tie to the even one. \<open>double_round x\<close> is the nearest multiple of
  \<open>2 ^ (e - 52)\<close>, where \<open>e\<close> is the exponent of \<open>x\<close>: the double nearest to \<open>x\<close>, which
  is also what the literal \<open>x\<close> denotes in the source of a program.
\<close>

fun log2_floor :: "nat \<Rightarrow> real \<Rightarrow> int" where
  "log2_floor 0 x = 0"
| "log2_floor (Suc n) x =
     (if 2 \<le> x then 1 + log2_floor n (x / 2)
      else if x < 1 then log2_floor n (2 * x) - 1
      else 0)"

definition round_even :: "int \<Rightarrow> real \<Rightarrow> int" where
  "round_even f d =
     (if d < 1 / 2 then f else if 1 / 2 < d then f + 1 else if even f then f else f + 1)"

definition round_at :: "int \<Rightarrow> real \<Rightarrow> int" where
  "round_at f y = round_even f (y - of_int f)"

definition rint :: "real \<Rightarrow> int" where
  "rint y = round_at \<lfloor>y\<rfloor> y"

definition scale_down :: "int \<Rightarrow> real \<Rightarrow> real" where
  "scale_down p x = sgn x * of_int (rint (\<bar>x\<bar> * of_int p)) / of_int p"

definition scale_up :: "int \<Rightarrow> real \<Rightarrow> real" where
  "scale_up p x = sgn x * of_int (rint (\<bar>x\<bar> / of_int p)) * of_int p"

definition round_to :: "int \<Rightarrow> real \<Rightarrow> real" where
  "round_to e x =
     (if e \<le> 52 then scale_down (2 ^ nat (52 - e)) x else scale_up (2 ^ nat (e - 52)) x)"

definition double_round :: "real \<Rightarrow> real" where
  "double_round x = (if x = 0 then 0 else round_to (log2_floor 64 \<bar>x\<bar>) x)"

definition double_ops :: float_ops where
  "double_ops =
     \<lparr>fadd = (\<lambda>x y. double_round (x + y)), fdiv = (\<lambda>x y. double_round (x / y))\<rparr>"

definition fmt_example :: formatters where
  "fmt_example =
     \<lparr>fmt_1f = (\<lambda>v. ''?''), fmt_float = (\<lambda>v. ''?''), fmt_pct0 = (\<lambda>v. ''?''),
      repr_list = (\<lambda>xs. join '', '' xs), warn_sign = ''!''\<rparr>"

definition response_of :: "string \<Rightarrow> string \<Rightarrow> AgentResponse" where
  "response_of aid atype =
     \<lparr>agent_id = aid, agent_type = atype, response_text = ''answer of '' @ aid,
      temperature = 1 / 2, generation_time_ms = 10\<rparr>"

definition evaluation_of :: "string \<Rightarrow> string \<Rightarrow> real \<Rightarrow> string list \<Rightarrow> JudgeEvaluation" where
  "evaluation_of jtype aid tot issues =
     \<lparr>judge_id = ''judge_'' @ lower jtype, judge_type = jtype, target_agent_id = aid,
      scores = [(''clarity'', tot)], total_score = tot, reasoning = ''reasons'',
      flagged_issues = issues\<rparr>"

definition r_analytical :: AgentResponse where
  "r_analytical = response_of ''agent_analytical'' ''Analytical Agent''"

definition r_creative :: AgentResponse where
  "r_creative = response_of ''agent_creative'' ''Creative Agent''"

definition r_safety :: AgentResponse where
  "r_safety = response_of ''agent_safety_advocate'' ''Safety Advocate''"

definition r_guardian :: AgentResponse where
  "r_guardian = response_of ''agent_guardian'' ''Safety Advocate''"


definition evs_tie_marker :: "JudgeEvaluation list" where
  "evs_tie_marker =
     [evaluation_of ''Factuality'' ''agent_analytical'' 8 [],
      evaluation_of ''Factuality'' ''agent_safety_advocate'' 7 [],
      evaluation_of ''Safety'' ''agent_analytical'' 8 [],
      evaluation_of ''Safety'' ''agent_safety_advocate'' 9 []]"

definition evs_tie_type :: "JudgeEvaluation list" where
  "evs_tie_type =
     [evaluation_of ''Factuality'' ''agent_analytical'' 8 [],
      evaluation_of ''Factuality'' ''agent_guardian'' 8 []]"

definition evs_same_type :: "JudgeEvaluation list" where
  "evs_same_type =
     [(evaluation_of ''Safety'' ''agent_analytical'' 1 [])\<lparr>judge_id := ''judge_safety_a''\<rparr>,
      (evaluation_of ''Safety'' ''agent_analytical'' 9 [])\<lparr>judge_id := ''judge_safety_b''\<rparr>]"

definition evs_disagree :: "JudgeEvaluation list" where
  "evs_disagree =
     [evaluation_of ''Factuality'' ''agent_analytical'' 9 [],
      evaluation_of ''Factuality'' ''agent_creative'' 8 [],
      evaluation_of ''Safety'' ''agent_analytical'' 5 [],
      evaluation_of ''Safety'' ''agent_creative'' 5 []]"

definition evs_boundary :: "JudgeEvaluation list" where
  "evs_boundary =
     [evaluation_of ''Factuality'' ''agent_creative'' 8 [],
      evaluation_of ''Safety'' ''agent_creative'' 5 []]"

definition findall_example :: "citation_pattern \<Rightarrow> string \<Rightarrow> string list" where
  "findall_example pattern text =
     (case pattern of
        UrlPattern \<Rightarrow> [''https://who.int/report'', ''HTTPS://WHO.INT/report'']
      | AccordingTo \<Rightarrow> [''the WHO'']
      | SourceColon \<Rightarrow> [''The who'']
      | CitedFrom \<Rightarrow> [])"

definition evs_harm :: "JudgeEvaluation list" where
  "evs_harm =
     [evaluation_of ''Factuality'' ''agent_creative'' 9 [''Potentially Harmful advice'']]"

definition evs_two_risks :: "JudgeEvaluation list" where
  "evs_two_risks =
     [evaluation_of ''Factuality'' ''agent_creative'' 9 [''Missing sources''],
      evaluation_of ''Safety'' ''agent_creative'' 9 [''Missing sources'', ''Vague'']]"

definition evs_low :: "JudgeEvaluation list" where
  "evs_low =
     [evaluation_of ''Factuality'' ''agent_analytical'' 5 [''Missing sources''],
      evaluation_of ''Factuality'' ''agent_creative'' 4 [],
      evaluation_of ''Safety'' ''agent_analytical'' 5 [],
      evaluation_of ''Safety'' ''agent_creative'' 4 []]"

definition sha_example :: "string \<Rightarrow> string" where
  "sha_example q = replicate 64 (CHR ''0'')"

definition council_example :: council where
  "council_example =
     \<lparr>c_gate = gate_example,
      c_search = (\<lambda>pattern text. False),
      c_run_agents = (\<lambda>q. Inr [r_analytical, r_creative]),
      c_run_judges = (\<lambda>q responses. Inr evs_low),
      c_synthesizer = mock_refine 5,
      c_stream_done = (\<lambda>q k. 2 \<le> k),
      c_stream_snapshot = (\<lambda>q k. [r_analytical, r_creative]),
      c_findall = findall_example,
      c_formatters = fmt_example,
      c_float_ops = double_ops,
      c_sha256_hex = sha_example,
      confidence_threshold = 6 / 10,
      max_retries = 1,
      skip_synthesis = False\<rparr>"

definition clock_example :: run_clock where
  "clock_example =
     \<lparr>new_decision_id = ''1a2b3c4d'', now_iso = ''2025-01-01T00:00:00'',
      log_now_iso = ''2025-01-01T00:00:01'', elapsed_ms = 1000\<rparr>"

definition decision_example :: Decision where
  "decision_example =
     \<lparr>decision_id = ''1a2b3c4d'', timestamp = ''2025-01-01T00:00:00'',
      query = ''my salary is 100'',
      agent_responses = [r_analytical], judge_evaluations = [],
      selected_response = r_analytical, confidence_score = 9 / 10, risk_level = LOW,
      identified_risks = [], citations = [], selection_reasoning = ''best'',
      refined_response = None, retry_feedback = [], processing_time_ms = 12,
      safety_passed = True, judge_disagreement = False, was_refined = False,
      was_retried = False\<rparr>"

text \<open>The doubles that the literals \<open>6.1\<close> and \<open>6.2\<close> denote.\<close>

definition d6_1 :: real where
  "d6_1 = 3433994715870003 / 562949953421312"

definition d6_2 :: real where
  "d6_2 = 6980579422424269 / 1125899906842624"

definition evs_float :: "JudgeEvaluation list" where
  "evs_float =
     [evaluation_of ''Factuality'' ''agent_analytical'' 6 [],
      evaluation_of ''Safety'' ''agent_analytical'' d6_1 [],
      evaluation_of ''Clarity'' ''agent_analytical'' d6_2 [],
      evaluation_of ''Factuality'' ''agent_creative'' d6_1 []]"

definition evs_float_permuted :: "JudgeEvaluation list" where
  "evs_float_permuted =
     [evaluation_of ''Factuality'' ''agent_analytical'' 6 [],
      evaluation_of ''Clarity'' ''agent_analytical'' d6_2 [],
      evaluation_of ''Safety'' ''agent_analytical'' d6_1 [],
      evaluation_of ''Factuality'' ''agent_creative'' d6_1 []]"

definition council_no_key :: council where
  "council_no_key = council_example\<lparr>c_run_judges := (\<lambda>q responses. Inl ValueError)\<rparr>"

section \<open>Safety gate: blocklist before allowlist\<close>

lemma find_keyword_Some:
  assumes "k \<in> set ks" and "P k"
  shows "\<exists>k'. find P ks = Some k'"
  using assms by (induction ks) auto

text \<open>
  C3, as the code has it. The gate examines the query after \<open>strip()\<close>. Whenever that
  stripped text contains a configured blocked keyword as a case-insensitive substring,
  \<open>check\<close> returns \<open>passed = False\<close>, whatever the allowlist patterns match: the
  keyword loop returns before the allowlist is looked at.
\<close>

theorem check_blocklist_before_allowlist:
  assumes "k \<in> set (blocked_keywords g)"
    and "str_in (lower k) (lower (strip q))"
  shows "\<not> passed (check re_search g q)"
proof -
  obtain k' where f: "find (\<lambda>keyword. str_in (lower keyword) (lower (strip q)))
      (blocked_keywords g) = Some k'"
    using find_keyword_Some [OF assms(1), of "\<lambda>keyword. str_in (lower keyword) (lower (strip q))"]
      assms(2) by blast
  show ?thesis
    by (simp add: check_def Let_def f)
qed

theorem check_blocklist_before_allowlist_witness:
  "''Bomb'' \<in> set (blocked_keywords gate_example)
   \<and> str_in (lower ''Bomb'') (lower (strip '' how to build a BOMB ''))
   \<and> list_ex (\<lambda>p. match_all p (strip '' how to build a BOMB ''))
        (allowlist_patterns gate_example)
   \<and> \<not> passed (check match_all gate_example '' how to build a BOMB '')"
proof -
  have h1: "''Bomb'' \<in> set (blocked_keywords gate_example)"
    by (simp add: gate_example_def)
  have h2: "str_in (lower ''Bomb'') (lower (strip '' how to build a BOMB ''))"
    by code_simp
  have h3: "list_ex (\<lambda>p. match_all p (strip '' how to build a BOMB ''))
        (allowlist_patterns gate_example)"
    by (simp add: gate_example_def match_all_def)
  from check_blocklist_before_allowlist [OF h1 h2, of match_all] h1 h2 h3
  show ?thesis by blast
qed

text \<open>
  The claim as stated speaks of the query itself. A keyword that ends in white space can
  occur in the query only where \<open>strip()\<close> removes it; then the keyword test fails on
  the stripped text and an allowlist match lets the query pass.
\<close>

theorem check_blocklist_counterexample:
  "\<not> (\<forall>re_search g q k. k \<in> set (blocked_keywords g) \<and> str_in (lower k) (lower q)
        \<and> list_ex (\<lambda>p. re_search p q) (allowlist_patterns g)
        \<longrightarrow> \<not> passed (check re_search g q))"
proof
  assume a: "\<forall>re_search g q k. k \<in> set (blocked_keywords g) \<and> str_in (lower k) (lower q)
        \<and> list_ex (\<lambda>p. re_search p q) (allowlist_patterns g)
        \<longrightarrow> \<not> passed (check re_search g q)"
  have h1: "''hack '' \<in> set (blocked_keywords gate_padded)"
    by (simp add: gate_padded_def)
  have h2: "str_in (lower ''hack '') (lower ''how to hack '')"
    by code_simp
  have h3: "list_ex (\<lambda>p. match_all p ''how to hack '') (allowlist_patterns gate_padded)"
    by (simp add: gate_padded_def match_all_def)
  have h4: "passed (check match_all gate_padded ''how to hack '')"
    by code_simp
  from a [rule_format, of "''hack ''" gate_padded "''how to hack ''" match_all] h1 h2 h3
  have "\<not> passed (check match_all gate_padded ''how to hack '')"
    by blast
  with h4 show False by simp
qed

section \<open>Selection: the dictionaries of \<open>_select_best\<close>\<close>

lemma keys_dict_extend:
  "map fst (dict_extend d k vs) = (if k \<in> fst ` set d then map fst d else map fst d @ [k])"
  by (induction d k vs rule: dict_extend.induct) (auto simp: image_iff)

lemma map_of_dict_extend:
  "map_of (dict_extend d k vs) =
     (map_of d)(k \<mapsto> (case map_of d k of None \<Rightarrow> vs | Some ws \<Rightarrow> ws @ vs))"
  by (induction d k vs rule: dict_extend.induct) (auto simp: fun_eq_iff)

lemma first_seen_set: "set (first_seen xs) = set xs"
  by (induction xs) auto

lemma first_seen_distinct: "distinct (first_seen xs)"
  by (induction xs) auto

lemma keys_fold_extend:
  "map fst (fold (\<lambda>e d. dict_extend d (kf e) (vf e)) es d) =
     map fst d @ filter (\<lambda>k. k \<notin> fst ` set d) (first_seen (map kf es))"
proof (induction es arbitrary: d)
  case Nil
  then show ?case by simp
next
  case (Cons e es)
  have s: "fst ` set (dict_extend d (kf e) (vf e)) = insert (kf e) (fst ` set d)"
    using keys_dict_extend [of d "kf e" "vf e"]
    by (metis (no_types, lifting) insert_absorb list.set_map set_append list.simps(15) Un_insert_right
        sup_bot.right_neutral empty_set)
  show ?case
  proof (cases "kf e \<in> fst ` set d")
    case True
    have "filter (\<lambda>k. k \<notin> fst ` set d) (filter (\<lambda>y. y \<noteq> kf e) (first_seen (map kf es)))
        = filter (\<lambda>k. k \<notin> fst ` set d) (first_seen (map kf es))"
      using True by (auto intro: filter_cong)
    with True show ?thesis
      by (simp add: Cons.IH keys_dict_extend s insert_absorb)
  next
    case False
    have "filter (\<lambda>k. k \<noteq> kf e \<and> k \<notin> fst ` set d) (first_seen (map kf es))
        = filter (\<lambda>k. k \<notin> fst ` set d) (filter (\<lambda>y. y \<noteq> kf e) (first_seen (map kf es)))"
      by (auto intro: filter_cong)
    with False show ?thesis
      by (simp add: Cons.IH keys_dict_extend s)
  qed
qed

lemma map_of_fold_extend:
  "map_of (fold (\<lambda>e d. dict_extend d (kf e) (vf e)) es d) a =
     (case map_of d a of
        Some ws \<Rightarrow> Some (ws @ concat (map vf (filter (\<lambda>e. kf e = a) es)))
      | None \<Rightarrow> if a \<in> kf ` set es then Some (concat (map vf (filter (\<lambda>e. kf e = a) es))) else None)"
proof (induction es arbitrary: d)
  case Nil
  then show ?case by (simp split: option.splits)
next
  case (Cons e es)
  show ?case
    by (simp add: Cons.IH map_of_dict_extend split: option.splits)
qed


lemma assoc_by_keys:
  "distinct (map fst d) \<Longrightarrow> d = map (\<lambda>k. (k, the (map_of d k))) (map fst d)"
proof (induction d)
  case Nil
  then show ?case by simp
next
  case (Cons p d)
  obtain k v where p: "p = (k, v)" by (cases p)
  from Cons.prems p have nk: "k \<notin> fst ` set d" and dd: "distinct (map fst d)" by auto
  have "map (\<lambda>k'. (k', the (map_of (p # d) k'))) (map fst d)
      = map (\<lambda>k'. (k', the (map_of d k'))) (map fst d)"
    using nk p by (auto simp: image_iff)
  with Cons.IH [OF dd] p show ?case by simp
qed

lemma agent_scores_of_char:
  "agent_scores_of evs = map (\<lambda>a. (a, totals_for evs a)) (evaluated_agents evs)"
proof -
  let ?d = "agent_scores_of evs"
  have keys: "map fst ?d = evaluated_agents evs"
    unfolding agent_scores_of_def evaluated_agents_def
    using keys_fold_extend [of target_agent_id "\<lambda>e. [total_score e]" evs "[]"] by simp
  have vals: "the (map_of ?d a) = totals_for evs a" if "a \<in> set (evaluated_agents evs)" for a
  proof -
    from that have "a \<in> target_agent_id ` set evs"
      by (simp add: evaluated_agents_def first_seen_set)
    then have "map_of ?d a = Some (concat (map (\<lambda>e. [total_score e])
        (filter (\<lambda>e. target_agent_id e = a) evs)))"
      unfolding agent_scores_of_def
      using map_of_fold_extend [of target_agent_id "\<lambda>e. [total_score e]" evs "[]" a] by simp
    moreover have "concat (map (\<lambda>e. [total_score e]) xs) = map total_score xs" for xs
      by (induction xs) auto
    ultimately show ?thesis by (simp add: totals_for_def)
  qed
  have "distinct (map fst ?d)"
    by (simp add: keys evaluated_agents_def first_seen_distinct)
  from assoc_by_keys [OF this] have "?d = map (\<lambda>k. (k, the (map_of ?d k))) (evaluated_agents evs)"
    by (simp add: keys)
  also have "\<dots> = map (\<lambda>a. (a, totals_for evs a)) (evaluated_agents evs)"
    using vals by simp
  finally show ?thesis .
qed

lemma avg_scores_of_char:
  "avg_scores_of ops evs = map (\<lambda>a. (a, avg_of ops evs a)) (evaluated_agents evs)"
  by (simp add: avg_scores_of_def agent_scores_of_char avg_of_def)

lemma agent_issues_of_lookup:
  "map_of (agent_issues_of evs) a =
     (if a \<in> target_agent_id ` set evs
      then Some (concat (map flagged_issues (filter (\<lambda>e. target_agent_id e = a) evs)))
      else None)"
  unfolding agent_issues_of_def
  using map_of_fold_extend [of target_agent_id flagged_issues evs "[]" a] by simp

lemma py_max_Max: "xs \<noteq> [] \<Longrightarrow> py_max xs = Inr (Max (set xs))"
proof (cases xs)
  case Nil
  assume "xs \<noteq> []"
  with Nil show ?thesis by simp
next
  case (Cons v vs)
  have "(\<lambda>x m. if m < x then x else m) = (max :: real \<Rightarrow> real \<Rightarrow> real)"
    by (auto simp: fun_eq_iff max_def)
  then show ?thesis
    using Cons Max.set_eq_fold [of v vs] by simp
qed

lemma evaluated_agents_nonempty: "evs \<noteq> [] \<Longrightarrow> evaluated_agents evs \<noteq> []"
  by (cases evs) (simp_all add: evaluated_agents_def)

lemma top_agents_char:
  assumes "evs \<noteq> []"
  shows "map fst (filter (\<lambda>(aid, score). score = Max (set (map snd (avg_scores_of ops evs))))
            (avg_scores_of ops evs)) = tied_agents ops evs"
proof -
  let ?order = "evaluated_agents evs"
  let ?M = "Max (avg_of ops evs ` set ?order)"
  have ne: "?order \<noteq> []" using assms by (rule evaluated_agents_nonempty)
  have m: "snd ` set (avg_scores_of ops evs) = avg_of ops evs ` set ?order"
    by (auto simp: avg_scores_of_char image_iff)
  have eq: "(avg_of ops evs b = ?M) = list_all (\<lambda>c. avg_of ops evs c \<le> avg_of ops evs b) ?order"
    if "b \<in> set ?order" for b
  proof -
    have fin: "finite (avg_of ops evs ` set ?order)" by simp
    have nem: "avg_of ops evs ` set ?order \<noteq> {}" using ne by simp
    show ?thesis
      using that Max_eq_iff [OF fin nem, of "avg_of ops evs b"]
      by (auto simp: list_all_iff)
  qed
  have "map fst (filter (\<lambda>(aid, score). score = ?M) (avg_scores_of ops evs))
      = filter (\<lambda>b. avg_of ops evs b = ?M) ?order"
    by (simp add: avg_scores_of_char filter_map comp_def)
  also have "\<dots> = tied_agents ops evs"
    unfolding tied_agents_def using eq by (auto intro: filter_cong)
  finally show ?thesis by (simp add: m)
qed

lemma tied_agents_nonempty:
  assumes "evs \<noteq> []"
  shows "tied_agents ops evs \<noteq> []"
proof -
  let ?order = "evaluated_agents evs"
  have ne: "?order \<noteq> []" using assms by (rule evaluated_agents_nonempty)
  then have "Max (avg_of ops evs ` set ?order) \<in> avg_of ops evs ` set ?order"
    by (intro Max_in) auto
  then obtain b where b: "b \<in> set ?order" "avg_of ops evs b = Max (avg_of ops evs ` set ?order)"
    by auto
  then have "list_all (\<lambda>c. avg_of ops evs c \<le> avg_of ops evs b) ?order"
    by (auto simp: list_all_iff)
  with b(1) have "b \<in> set (tied_agents ops evs)"
    by (simp add: tied_agents_def)
  then show ?thesis by auto
qed

lemma tied_agents_avg:
  assumes "b \<in> set (tied_agents ops evs)"
  shows "avg_of ops evs b = Max (set (map snd (avg_scores_of ops evs)))"
proof -
  let ?order = "evaluated_agents evs"
  from assms have b: "b \<in> set ?order" and le: "\<forall>c\<in>set ?order. avg_of ops evs c \<le> avg_of ops evs b"
    by (auto simp: tied_agents_def list_all_iff)
  have m: "snd ` set (avg_scores_of ops evs) = avg_of ops evs ` set ?order"
    by (auto simp: avg_scores_of_char image_iff)
  have "Max (avg_of ops evs ` set ?order) = avg_of ops evs b"
    using b le by (intro Max_eqI) auto
  then show ?thesis by (simp add: m)
qed

lemma select_best_winner:
  assumes ne: "evs \<noteq> []"
    and w: "w = (case find has_safety_marker (tied_agents ops evs) of
                   Some aid \<Rightarrow> aid | None \<Rightarrow> hd (tied_agents ops evs))"
    and r: "find (\<lambda>response. agent_id response = w) responses = Some r"
  shows "\<exists>rs. select_best ops fmt responses evs = Inr (r, fdiv ops (avg_of ops evs w) 10, rs)"
proof -
  have ane: "map snd (avg_scores_of ops evs) \<noteq> []"
    using evaluated_agents_nonempty [OF ne] by (simp add: avg_scores_of_char)
  obtain t ts where tt: "tied_agents ops evs = t # ts"
    using tied_agents_nonempty [OF ne] by (cases "tied_agents ops evs") auto
  have win: "w \<in> set (tied_agents ops evs)"
  proof (cases "find has_safety_marker (tied_agents ops evs)")
    case None
    with w tt show ?thesis by simp
  next
    case (Some m)
    then have "m \<in> set (tied_agents ops evs)"
      by (auto simp: find_Some_iff)
    with w Some show ?thesis by simp
  qed
  have w': "(case find has_safety_marker (t # ts) of Some aid \<Rightarrow> aid | None \<Rightarrow> t) = w"
    using w unfolding tt by (auto split: option.splits)
  define B where "B = Max (set (map snd (avg_scores_of ops evs)))"
  have e1: "py_max (map snd (avg_scores_of ops evs)) = Inr B"
    unfolding B_def by (rule py_max_Max [OF ane])
  have e2: "map fst (filter (\<lambda>(aid, score). score = B) (avg_scores_of ops evs)) = t # ts"
    unfolding B_def top_agents_char [OF ne] by (rule tt)
  have e3: "B = avg_of ops evs w"
    unfolding B_def by (rule tied_agents_avg [OF win, symmetric])
  have "\<exists>rs. select_best ops fmt responses evs = Inr (r, fdiv ops B 10, rs)"
    unfolding select_best_def Let_def e1 sum.case e2 list.case w' r option.case
    by simp
  then show ?thesis by (simp add: e3)
qed

lemma filter_only:
  "distinct xs \<Longrightarrow> a \<in> set xs \<Longrightarrow> (\<And>b. b \<in> set xs \<Longrightarrow> P b = (b = a)) \<Longrightarrow> filter P xs = [a]"
proof (induction xs)
  case Nil
  then show ?case by simp
next
  case (Cons x xs)
  show ?case
  proof (cases "x = a")
    case True
    with Cons.prems have "\<And>b. b \<in> set xs \<Longrightarrow> \<not> P b" by auto
    then have "filter P xs = []" by (simp add: filter_empty_conv)
    with True Cons.prems show ?thesis by simp
  next
    case False
    with Cons show ?thesis by auto
  qed
qed





lemma tied_agents_strict:
  assumes a_in: "a \<in> target_agent_id ` set evs"
    and strict: "\<And>b. b \<in> target_agent_id ` set evs \<Longrightarrow> b \<noteq> a \<Longrightarrow> avg_of ops evs b < avg_of ops evs a"
  shows "tied_agents ops evs = [a]"
proof -
  let ?order = "evaluated_agents evs"
  have s: "set ?order = target_agent_id ` set evs"
    by (simp add: evaluated_agents_def first_seen_set)
  have d: "distinct ?order"
    by (simp add: evaluated_agents_def first_seen_distinct)
  have "list_all (\<lambda>c. avg_of ops evs c \<le> avg_of ops evs b) ?order = (b = a)" if "b \<in> set ?order" for b
  proof (cases "b = a")
    case True
    have "avg_of ops evs c \<le> avg_of ops evs a" if "c \<in> set ?order" for c
      using strict [of c] that s by (cases "c = a") auto
    with True show ?thesis by (simp add: list_all_iff)
  next
    case False
    with strict [of b] that s have "avg_of ops evs b < avg_of ops evs a" by auto
    then have "\<not> avg_of ops evs a \<le> avg_of ops evs b" by simp
    moreover have "a \<in> set ?order" using a_in s by simp
    ultimately have "\<not> list_all (\<lambda>c. avg_of ops evs c \<le> avg_of ops evs b) ?order"
      unfolding list_all_iff by blast
    with False show ?thesis by simp
  qed
  with d a_in s show ?thesis
    unfolding tied_agents_def by (intro filter_only) auto
qed

section \<open>Selection: no evaluations\<close>

text \<open>
  C1. With an empty list of evaluations the dictionary of averages is empty and
  \<open>max(avg_scores.values())\<close> raises ValueError, whatever the responses are: the
  selection fails instead of falling back to the first response with confidence 0.
\<close>

theorem select_best_empty_evaluations:
  "select_best ops fmt responses [] = Inl ValueError"
  by (simp add: select_best_def avg_scores_of_def agent_scores_of_def)

lemma select_best_strict:
  assumes a_in: "a \<in> target_agent_id ` set evs"
    and strict: "\<forall>b \<in> target_agent_id ` set evs. b \<noteq> a \<longrightarrow> avg_of ops evs b < avg_of ops evs a"
    and resp: "find (\<lambda>response. agent_id response = a) responses = Some r"
  shows "\<exists>rs. select_best ops fmt responses evs = Inr (r, fdiv ops (avg_of ops evs a) 10, rs)"
proof -
  have ne: "evs \<noteq> []"
    using a_in by auto
  have t: "tied_agents ops evs = [a]"
    using a_in strict by (intro tied_agents_strict) blast+
  have w: "a = (case find has_safety_marker (tied_agents ops evs) of
                  Some aid \<Rightarrow> aid | None \<Rightarrow> hd (tied_agents ops evs))"
    unfolding t by simp
  from select_best_winner [OF ne w resp, of fmt]
  show ?thesis .
qed

text \<open>Evaluation of the double operations on numerals.\<close>

lemma log2_floor_numeral:
  "log2_floor (numeral k) x =
     (if 2 \<le> x then 1 + log2_floor (pred_numeral k) (x / 2)
      else if x < 1 then log2_floor (pred_numeral k) (2 * x) - 1
      else 0)"
  by (simp add: numeral_eq_Suc)

lemmas double_eval = double_round_def round_to_def scale_down_def scale_up_def rint_def
  round_at_def round_even_def log2_floor_numeral

lemma fadd_double: "fadd double_ops x y = double_round (x + y)"
  by (simp add: double_ops_def)

lemma fdiv_double: "fdiv double_ops x y = double_round (x / y)"
  by (simp add: double_ops_def)



section \<open>Selection: strict maximum\<close>



text \<open>
  C5 as the specification states it fails for the code's float average: with the three
  total scores 6.0, 6.1, 6.2 for the analytical agent and the one score 6.1 for the
  creative agent, the analytical agent's average is strictly the higher one (as the code
  computes it on this list, and on the exact values of the scores), and it is selected;
  after exchanging two evaluations of the analytical agent the float sum rounds the other
  way, its average falls below 6.1, and the creative agent is selected.
\<close>

theorem select_best_order_counterexample:
  "mset evs_float_permuted = mset evs_float
   \<and> d6_1 = double_round (61 / 10) \<and> d6_2 = double_round (62 / 10)
   \<and> target_agent_id ` set evs_float = {''agent_analytical'', ''agent_creative''}
   \<and> totals_for evs_float ''agent_analytical'' = [6, d6_1, d6_2]
   \<and> totals_for evs_float ''agent_creative'' = [d6_1]
   \<and> totals_for evs_float_permuted ''agent_analytical'' = [6, d6_2, d6_1]
   \<and> avg_of double_ops evs_float ''agent_creative'' < avg_of double_ops evs_float ''agent_analytical''
   \<and> d6_1 / 1 < (6 + d6_1 + d6_2) / 3
   \<and> avg_of double_ops evs_float_permuted ''agent_analytical''
       < avg_of double_ops evs_float_permuted ''agent_creative''
   \<and> map_sum id fst (select_best double_ops fmt_example [r_analytical, r_creative] evs_float)
       = Inr r_analytical
   \<and> map_sum id fst (select_best double_ops fmt_example [r_analytical, r_creative] evs_float_permuted)
       = Inr r_creative"
proof -
  have p: "mset evs_float_permuted = mset evs_float"
    by (simp add: evs_float_def evs_float_permuted_def)
  have d1: "d6_1 = double_round (61 / 10)" and d2: "d6_2 = double_round (62 / 10)"
    by (simp_all add: d6_1_def d6_2_def double_eval)
  have ids: "target_agent_id ` set evs_float = {''agent_analytical'', ''agent_creative''}"
    and idsp: "target_agent_id ` set evs_float_permuted = {''agent_analytical'', ''agent_creative''}"
    by code_simp+
  have ta: "totals_for evs_float ''agent_analytical'' = [6, d6_1, d6_2]"
    and tc: "totals_for evs_float ''agent_creative'' = [d6_1]"
    and tpa: "totals_for evs_float_permuted ''agent_analytical'' = [6, d6_2, d6_1]"
    and tpc: "totals_for evs_float_permuted ''agent_creative'' = [d6_1]"
    by code_simp+
  have aa: "avg_of double_ops evs_float ''agent_analytical''
      = 6867989431740007 / 1125899906842624"
    by (simp add: avg_of_def ta py_sum_def fadd_double fdiv_double d6_1_def d6_2_def double_eval)
  have ac: "avg_of double_ops evs_float ''agent_creative''
      = 6867989431740006 / 1125899906842624"
    by (simp add: avg_of_def tc py_sum_def fadd_double fdiv_double d6_1_def double_eval)
  have apa: "avg_of double_ops evs_float_permuted ''agent_analytical''
      = 6867989431740005 / 1125899906842624"
    by (simp add: avg_of_def tpa py_sum_def fadd_double fdiv_double d6_1_def d6_2_def double_eval)
  have apc: "avg_of double_ops evs_float_permuted ''agent_creative''
      = 6867989431740006 / 1125899906842624"
    by (simp add: avg_of_def tpc py_sum_def fadd_double fdiv_double d6_1_def double_eval)
  have lt: "avg_of double_ops evs_float ''agent_creative'' < avg_of double_ops evs_float ''agent_analytical''"
    by (simp add: aa ac)
  have ex: "d6_1 / 1 < (6 + d6_1 + d6_2) / 3"
    by (simp add: d6_1_def d6_2_def)
  have ltp: "avg_of double_ops evs_float_permuted ''agent_analytical''
       < avg_of double_ops evs_float_permuted ''agent_creative''"
    by (simp add: apa apc)
  have fa: "find (\<lambda>response. agent_id response = ''agent_analytical'') [r_analytical, r_creative]
      = Some r_analytical"
    and fc: "find (\<lambda>response. agent_id response = ''agent_creative'') [r_analytical, r_creative]
      = Some r_creative"
    by code_simp+
  have "\<exists>rs. select_best double_ops fmt_example [r_analytical, r_creative] evs_float
      = Inr (r_analytical, fdiv double_ops (avg_of double_ops evs_float ''agent_analytical'') 10, rs)"
    using fa by (intro select_best_strict) (simp_all add: ids aa ac)
  then have s1: "map_sum id fst (select_best double_ops fmt_example [r_analytical, r_creative] evs_float)
       = Inr r_analytical"
    by auto
  have "\<exists>rs. select_best double_ops fmt_example [r_analytical, r_creative] evs_float_permuted
      = Inr (r_creative, fdiv double_ops (avg_of double_ops evs_float_permuted ''agent_creative'') 10, rs)"
    using fc by (intro select_best_strict) (simp_all add: idsp apa apc)
  then have s2: "map_sum id fst (select_best double_ops fmt_example [r_analytical, r_creative] evs_float_permuted)
       = Inr r_creative"
    by auto
  from p d1 d2 ids ta tc tpa lt ex ltp s1 s2 show ?thesis by blast
qed


section \<open>Selection: tie-break\<close>

text \<open>
  C6, as the code has it. \<open>tied_agents ops evs\<close> are the agents whose average is the
  best one, in the order in which the evaluation list first names them (the panel's order
  when every judge scores the responses in the panel's order). With at least one
  evaluation that list is not empty; the selection takes the first tied agent whose
  identifier, in lower case, contains "safety" or "advocate" (the agent's type is not
  looked at), and the first tied agent when no identifier carries the marker. It returns
  that agent's response when it has one. The result is a function of the two lists.
\<close>

theorem select_best_tie_break:
  assumes "evs \<noteq> []"
  shows "tied_agents ops evs \<noteq> []
    \<and> (\<forall>m r. find has_safety_marker (tied_agents ops evs) = Some m
            \<and> find (\<lambda>response. agent_id response = m) responses = Some r
          \<longrightarrow> (\<exists>rs. select_best ops fmt responses evs = Inr (r, fdiv ops (avg_of ops evs m) 10, rs)))
    \<and> (\<forall>r. find has_safety_marker (tied_agents ops evs) = None
            \<and> find (\<lambda>response. agent_id response = hd (tied_agents ops evs)) responses = Some r
          \<longrightarrow> (\<exists>rs. select_best ops fmt responses evs
                  = Inr (r, fdiv ops (avg_of ops evs (hd (tied_agents ops evs))) 10, rs)))"
proof (intro conjI allI impI)
  show "tied_agents ops evs \<noteq> []" using assms by (rule tied_agents_nonempty)
next
  fix m r
  assume h: "find has_safety_marker (tied_agents ops evs) = Some m
    \<and> find (\<lambda>response. agent_id response = m) responses = Some r"
  then have w: "m = (case find has_safety_marker (tied_agents ops evs) of
                  Some aid \<Rightarrow> aid | None \<Rightarrow> hd (tied_agents ops evs))"
    by simp
  from h have r: "find (\<lambda>response. agent_id response = m) responses = Some r" by simp
  from select_best_winner [OF assms w r]
  show "\<exists>rs. select_best ops fmt responses evs = Inr (r, fdiv ops (avg_of ops evs m) 10, rs)" .
next
  fix r
  assume h: "find has_safety_marker (tied_agents ops evs) = None
    \<and> find (\<lambda>response. agent_id response = hd (tied_agents ops evs)) responses = Some r"
  then have w: "hd (tied_agents ops evs) = (case find has_safety_marker (tied_agents ops evs) of
                  Some aid \<Rightarrow> aid | None \<Rightarrow> hd (tied_agents ops evs))"
    by simp
  from h have r: "find (\<lambda>response. agent_id response = hd (tied_agents ops evs)) responses = Some r"
    by simp
  from select_best_winner [OF assms w r]
  show "\<exists>rs. select_best ops fmt responses evs = Inr (r, fdiv ops (avg_of ops evs (hd (tied_agents ops evs))) 10, rs)" .
qed

theorem select_best_tie_break_witness:
  "evs_tie_marker \<noteq> []
   \<and> tied_agents double_ops evs_tie_marker = [''agent_analytical'', ''agent_safety_advocate'']
   \<and> find has_safety_marker (tied_agents double_ops evs_tie_marker) = Some ''agent_safety_advocate''
   \<and> find (\<lambda>response. agent_id response = ''agent_safety_advocate'') [r_analytical, r_safety]
       = Some r_safety
   \<and> (\<exists>rs. select_best double_ops fmt_example [r_analytical, r_safety] evs_tie_marker
         = Inr (r_safety, fdiv double_ops (avg_of double_ops evs_tie_marker ''agent_safety_advocate'') 10, rs))"
proof -
  have h0: "evs_tie_marker \<noteq> []" by (simp add: evs_tie_marker_def)
  have ea: "evaluated_agents evs_tie_marker = [''agent_analytical'', ''agent_safety_advocate'']"
    and ta: "totals_for evs_tie_marker ''agent_analytical'' = [8, 8]"
    and ts: "totals_for evs_tie_marker ''agent_safety_advocate'' = [7, 9]"
    by code_simp+
  have aa: "avg_of double_ops evs_tie_marker ''agent_analytical'' = 8"
    by (simp add: avg_of_def ta py_sum_def fadd_double fdiv_double double_eval)
  have as: "avg_of double_ops evs_tie_marker ''agent_safety_advocate'' = 8"
    by (simp add: avg_of_def ts py_sum_def fadd_double fdiv_double double_eval)
  have h1: "tied_agents double_ops evs_tie_marker = [''agent_analytical'', ''agent_safety_advocate'']"
    by (simp add: tied_agents_def ea aa as)
  have "find has_safety_marker [''agent_analytical'', ''agent_safety_advocate'']
      = Some ''agent_safety_advocate''"
    by code_simp
  then have h2: "find has_safety_marker (tied_agents double_ops evs_tie_marker)
      = Some ''agent_safety_advocate''"
    by (simp only: h1)
  have h3: "find (\<lambda>response. agent_id response = ''agent_safety_advocate'') [r_analytical, r_safety]
       = Some r_safety" by code_simp
  from select_best_tie_break [OF h0, where ops = double_ops and fmt = fmt_example
      and responses = "[r_analytical, r_safety]"] h2 h3
  have "\<exists>rs. select_best double_ops fmt_example [r_analytical, r_safety] evs_tie_marker
         = Inr (r_safety, fdiv double_ops (avg_of double_ops evs_tie_marker ''agent_safety_advocate'') 10, rs)"
    by blast
  with h0 h1 h2 h3 show ?thesis by blast
qed

text \<open>
  The claim as stated has the agent's type count as well. Two agents tied at 8, the second
  of type "Safety Advocate" with an identifier that carries no marker: the first one is
  selected.
\<close>

theorem select_best_tie_break_counterexample:
  "avg_of double_ops evs_tie_type ''agent_analytical'' = avg_of double_ops evs_tie_type ''agent_guardian''
   \<and> tied_agents double_ops evs_tie_type = [''agent_analytical'', ''agent_guardian'']
   \<and> has_safety_marker (agent_type r_guardian)
   \<and> \<not> has_safety_marker (agent_id r_analytical)
   \<and> \<not> has_safety_marker (agent_type r_analytical)
   \<and> map_sum id fst (select_best double_ops fmt_example [r_analytical, r_guardian] evs_tie_type)
       = Inr r_analytical"
proof -
  have ne: "evs_tie_type \<noteq> []" by (simp add: evs_tie_type_def)
  have ea: "evaluated_agents evs_tie_type = [''agent_analytical'', ''agent_guardian'']"
    and ta: "totals_for evs_tie_type ''agent_analytical'' = [8]"
    and tg: "totals_for evs_tie_type ''agent_guardian'' = [8]"
    by code_simp+
  have aa: "avg_of double_ops evs_tie_type ''agent_analytical'' = 8"
    by (simp add: avg_of_def ta py_sum_def fadd_double fdiv_double double_eval)
  have ag: "avg_of double_ops evs_tie_type ''agent_guardian'' = 8"
    by (simp add: avg_of_def tg py_sum_def fadd_double fdiv_double double_eval)
  have t: "tied_agents double_ops evs_tie_type = [''agent_analytical'', ''agent_guardian'']"
    by (simp add: tied_agents_def ea aa ag)
  have m: "has_safety_marker (agent_type r_guardian)"
    "\<not> has_safety_marker (agent_id r_analytical)"
    "\<not> has_safety_marker (agent_type r_analytical)"
    by code_simp+
  have "find has_safety_marker [''agent_analytical'', ''agent_guardian''] = None"
    by code_simp
  then have w: "''agent_analytical''
      = (case find has_safety_marker (tied_agents double_ops evs_tie_type) of
           Some aid \<Rightarrow> aid | None \<Rightarrow> hd (tied_agents double_ops evs_tie_type))"
    by (simp only: t option.case list.sel)
  have r: "find (\<lambda>response. agent_id response = ''agent_analytical'') [r_analytical, r_guardian]
      = Some r_analytical"
    by code_simp
  from select_best_winner [OF ne w r, of fmt_example]
  have s: "map_sum id fst (select_best double_ops fmt_example [r_analytical, r_guardian] evs_tie_type)
       = Inr r_analytical"
    by auto
  from aa ag t m s show ?thesis by simp
qed

section \<open>Judge disagreement\<close>

lemma first_seen_snoc:
  "first_seen (xs @ [x]) = (if x \<in> set xs then first_seen xs else first_seen xs @ [x])"
  by (induction xs) (auto simp: first_seen_set)

lemma dict_set_map:
  "distinct ks \<Longrightarrow>
   dict_set (map (\<lambda>a. (a, F a)) ks) k v =
     map (\<lambda>a. (a, (F(k := v)) a)) (if k \<in> set ks then ks else ks @ [k])"
proof (induction ks)
  case Nil
  then show ?case by simp
next
  case (Cons x ks)
  show ?case
  proof (cases "x = k")
    case True
    with Cons.prems have "k \<notin> set ks" by simp
    then have "map (\<lambda>a. (a, F a)) ks = map (\<lambda>a. (a, (F(k := v)) a)) ks" by auto
    with True show ?thesis by simp
  next
    case False
    with Cons show ?thesis by auto
  qed
qed

lemma map_of_by_keys:
  "map_of (map (\<lambda>a. (a, F a)) ks) k = (if k \<in> set ks then Some (F k) else None)"
  by (induction ks) auto

lemma inner_of_snoc_other:
  "a \<noteq> target_agent_id e \<Longrightarrow> inner_of (evs @ [e]) a = inner_of evs a"
  by (simp add: inner_of_def judge_types_for_def latest_total_def)

lemma inner_of_snoc_same:
  "dict_set (inner_of evs (target_agent_id e)) (judge_type e) (total_score e)
     = inner_of (evs @ [e]) (target_agent_id e)"
proof -
  let ?a = "target_agent_id e"
  let ?ts = "judge_types_for evs ?a"
  have d: "distinct ?ts" by (simp add: judge_types_for_def first_seen_distinct)
  have ts': "judge_types_for (evs @ [e]) ?a
      = (if judge_type e \<in> set ?ts then ?ts else ?ts @ [judge_type e])"
    by (simp add: judge_types_for_def first_seen_snoc first_seen_set)
  have l: "((latest_total evs ?a)(judge_type e := total_score e)) jt
      = latest_total (evs @ [e]) ?a jt" for jt
    by (simp add: latest_total_def)
  show ?thesis
    unfolding inner_of_def dict_set_map [OF d] ts' l ..
qed

lemma judge_scores_of_char:
  "judge_scores_of evs = map (\<lambda>a. (a, inner_of evs a)) (evaluated_agents evs)"
proof (induction evs rule: rev_induct)
  case Nil
  then show ?case by (simp add: judge_scores_of_def evaluated_agents_def)
next
  case (snoc e evs)
  let ?a = "target_agent_id e"
  let ?ks = "evaluated_agents evs"
  have d: "distinct ?ks" by (simp add: evaluated_agents_def first_seen_distinct)
  have look: "(case map_of (judge_scores_of evs) ?a of None \<Rightarrow> [] | Some inner \<Rightarrow> inner)
      = inner_of evs ?a"
  proof (cases "?a \<in> set ?ks")
    case True
    then show ?thesis by (simp add: snoc.IH map_of_by_keys)
  next
    case False
    then have "filter (\<lambda>e'. target_agent_id e' = ?a) evs = []"
      unfolding evaluated_agents_def first_seen_set filter_empty_conv
      by (metis image_eqI list.set_map)
    then have "inner_of evs ?a = []"
      by (simp add: inner_of_def judge_types_for_def)
    with False show ?thesis by (simp add: snoc.IH map_of_by_keys)
  qed
  have ks': "evaluated_agents (evs @ [e]) = (if ?a \<in> set ?ks then ?ks else ?ks @ [?a])"
    by (simp add: evaluated_agents_def first_seen_snoc first_seen_set)
  have f: "((inner_of evs)(?a := inner_of (evs @ [e]) ?a)) a = inner_of (evs @ [e]) a" for a
    by (simp add: inner_of_snoc_other)
  have "judge_scores_of (evs @ [e])
      = dict_set (judge_scores_of evs) ?a
          (dict_set (case map_of (judge_scores_of evs) ?a of None \<Rightarrow> [] | Some inner \<Rightarrow> inner)
             (judge_type e) (total_score e))"
    by (simp add: judge_scores_of_def)
  also have "\<dots> = dict_set (judge_scores_of evs) ?a (inner_of (evs @ [e]) ?a)"
    by (simp only: look inner_of_snoc_same)
  also have "\<dots> = dict_set (map (\<lambda>a. (a, inner_of evs a)) ?ks) ?a (inner_of (evs @ [e]) ?a)"
    by (simp only: snoc.IH)
  also have "\<dots> = map (\<lambda>a. (a, inner_of (evs @ [e]) a)) (evaluated_agents (evs @ [e]))"
    unfolding dict_set_map [OF d] ks' f ..
  finally show ?case .
qed

lemma max_of_Max: "max_of v vs = Max (set (v # vs))"
proof -
  have "(\<lambda>x m. if m < x then x else m) = (max :: real \<Rightarrow> real \<Rightarrow> real)"
    by (auto simp: fun_eq_iff max_def)
  then show ?thesis
    using Max.set_eq_fold [of v vs] by (simp add: max_of_def)
qed

lemma min_of_Min: "min_of v vs = Min (set (v # vs))"
proof -
  have "(\<lambda>x m. if x < m then x else m) = (min :: real \<Rightarrow> real \<Rightarrow> real)"
    by (auto simp: fun_eq_iff min_def)
  then show ?thesis
    using Min.set_eq_fold [of v vs] by (simp add: min_of_def)
qed

lemma inner_disagree:
  "(2 \<le> length (inner_of evs a) \<and>
     (case map snd (inner_of evs a) of [] \<Rightarrow> False
      | v # vs \<Rightarrow> thr < max_of v vs - min_of v vs))
   = (2 \<le> length (judge_totals evs a)
       \<and> thr < Max (set (judge_totals evs a)) - Min (set (judge_totals evs a)))"
proof -
  have m: "map snd (inner_of evs a) = judge_totals evs a"
    by (simp add: inner_of_def judge_totals_def comp_def)
  have l: "length (inner_of evs a) = length (judge_totals evs a)"
    by (simp add: inner_of_def judge_totals_def)
  show ?thesis
    unfolding m l by (cases "judge_totals evs a") (simp_all add: max_of_Max min_of_Min)
qed

lemma check_judge_disagreement_inner:
  "check_judge_disagreement evs thr
     = (\<exists>a \<in> target_agent_id ` set evs.
          2 \<le> length (inner_of evs a) \<and>
          (case map snd (inner_of evs a) of [] \<Rightarrow> False
           | v # vs \<Rightarrow> thr < max_of v vs - min_of v vs))"
proof -
  have s: "set (evaluated_agents evs) = target_agent_id ` set evs"
    by (simp add: evaluated_agents_def first_seen_set)
  have "check_judge_disagreement evs thr
      = (\<exists>a \<in> set (evaluated_agents evs).
          2 \<le> length (inner_of evs a) \<and>
          (case map snd (inner_of evs a) of [] \<Rightarrow> False
           | v # vs \<Rightarrow> thr < max_of v vs - min_of v vs))"
    unfolding check_judge_disagreement_def judge_scores_of_char
    by (simp add: list_ex_iff)
  then show ?thesis unfolding s .
qed

text \<open>
  C7, as the code has it. The function keeps, for each agent, one total per judge type
  (a later evaluation of the same judge type for the agent replaces the earlier one).
  The flag is true if and only if some agent has totals of at least two judge types and
  the largest of them minus the smallest is strictly above the threshold; a difference
  equal to the threshold gives false.
\<close>

theorem check_judge_disagreement_iff:
  "check_judge_disagreement evs thr
   = (\<exists>a \<in> target_agent_id ` set evs.
        2 \<le> length (judge_totals evs a)
        \<and> thr < Max (set (judge_totals evs a)) - Min (set (judge_totals evs a)))"
proof -
  have "check_judge_disagreement evs thr
      = (\<exists>a \<in> target_agent_id ` set evs.
          2 \<le> length (inner_of evs a) \<and>
          (case map snd (inner_of evs a) of [] \<Rightarrow> False
           | v # vs \<Rightarrow> thr < max_of v vs - min_of v vs))"
    by (rule check_judge_disagreement_inner)
  then show ?thesis
    unfolding inner_disagree .
qed

theorem check_judge_disagreement_iff_witness:
  "judge_totals evs_disagree ''agent_analytical'' = [9, 5]
   \<and> check_judge_disagreement evs_disagree default_threshold
   \<and> judge_totals evs_boundary ''agent_creative'' = [8, 5]
   \<and> \<not> check_judge_disagreement evs_boundary default_threshold"
proof -
  have h1: "judge_totals evs_disagree ''agent_analytical'' = [9, 5]" by code_simp
  have h2: "judge_totals evs_boundary ''agent_creative'' = [8, 5]" by code_simp
  have h3: "\<exists>a \<in> target_agent_id ` set evs_disagree.
        2 \<le> length (judge_totals evs_disagree a)
        \<and> default_threshold < Max (set (judge_totals evs_disagree a))
            - Min (set (judge_totals evs_disagree a))"
    by code_simp
  have h4: "\<not> (\<exists>a \<in> target_agent_id ` set evs_boundary.
        2 \<le> length (judge_totals evs_boundary a)
        \<and> default_threshold < Max (set (judge_totals evs_boundary a))
            - Min (set (judge_totals evs_boundary a)))"
    by code_simp
  from h3 check_judge_disagreement_iff [of evs_disagree default_threshold]
  have a: "check_judge_disagreement evs_disagree default_threshold" by blast
  from h4 check_judge_disagreement_iff [of evs_boundary default_threshold]
  have b: "\<not> check_judge_disagreement evs_boundary default_threshold" by blast
  from h1 h2 a b show ?thesis by blast
qed

text \<open>
  The claim as stated counts judges. Two judges of the same type score one agent 1 and 9:
  two totals exist and differ by 8, above the threshold 3, yet the second evaluation
  replaces the first under the key "Safety" and the flag is false.
\<close>

theorem check_judge_disagreement_counterexample:
  "map judge_id evs_same_type = [''judge_safety_a'', ''judge_safety_b'']
   \<and> map target_agent_id evs_same_type = [''agent_analytical'', ''agent_analytical'']
   \<and> map total_score evs_same_type = [1, 9]
   \<and> default_threshold < Max (set (map total_score evs_same_type))
        - Min (set (map total_score evs_same_type))
   \<and> \<not> check_judge_disagreement evs_same_type default_threshold"
  by code_simp

text \<open>
  When no two evaluations share target agent and judge type, as in a run of the council
  with its two judges, the totals kept are all the totals of the agent.
\<close>

lemma filter_same_key:
  "distinct (map f xs) \<Longrightarrow> e \<in> set xs \<Longrightarrow> filter (\<lambda>x. f x = f e) xs = [e]"
proof (induction xs)
  case Nil
  then show ?case by simp
next
  case (Cons x xs)
  show ?case
  proof (cases "x = e")
    case True
    with Cons.prems have "f e \<notin> f ` set xs" by simp
    then have "\<forall>y\<in>set xs. f y \<noteq> f e"
      by (auto intro: rev_image_eqI)
    then have "filter (\<lambda>x. f x = f e) xs = []" by (simp add: filter_empty_conv)
    with True show ?thesis by simp
  next
    case False
    with Cons.prems have e: "e \<in> set xs" by simp
    from Cons.prems have "f x \<notin> f ` set xs" by simp
    with e have "f x \<noteq> f e" by (auto intro: rev_image_eqI)
    with Cons e show ?thesis by simp
  qed
qed

lemma first_seen_distinct_id: "distinct xs \<Longrightarrow> first_seen xs = xs"
proof (induction xs)
  case Nil
  then show ?case by simp
next
  case (Cons x xs)
  then have "filter (\<lambda>y. y \<noteq> x) xs = xs" by (auto intro: filter_True)
  with Cons show ?case by simp
qed

lemma distinct_second_of_pairs:
  "distinct (map (\<lambda>e. (g e, h e)) xs) \<Longrightarrow> distinct (map h (filter (\<lambda>e. g e = a) xs))"
proof (induction xs)
  case Nil
  then show ?case by simp
next
  case (Cons x xs)
  from Cons.prems have nx: "(g x, h x) \<notin> (\<lambda>e. (g e, h e)) ` set xs" by simp
  have "h x \<notin> h ` {e \<in> set xs. g e = a}" if "g x = a"
  proof
    assume "h x \<in> h ` {e \<in> set xs. g e = a}"
    then obtain e where "e \<in> set xs" "g e = a" "h e = h x" by auto
    with that have "(g x, h x) = (g e, h e)" by simp
    with \<open>e \<in> set xs\<close> nx show False by (auto intro: rev_image_eqI)
  qed
  with Cons show ?case by simp
qed

lemma judge_totals_unique:
  assumes "distinct (map (\<lambda>e. (target_agent_id e, judge_type e)) evs)"
  shows "judge_totals evs a = totals_for evs a"
proof -
  let ?es = "filter (\<lambda>e. target_agent_id e = a) evs"
  have d: "distinct (map judge_type ?es)"
    using assms by (rule distinct_second_of_pairs)
  have l: "latest_total evs a (judge_type e) = total_score e" if "e \<in> set ?es" for e
  proof -
    from that have e: "e \<in> set evs" and t: "target_agent_id e = a" by auto
    have "filter (\<lambda>x. (target_agent_id x, judge_type x) = (target_agent_id e, judge_type e)) evs
        = [e]"
      using assms e by (rule filter_same_key)
    then have "filter (\<lambda>x. target_agent_id x = a \<and> judge_type x = judge_type e) evs = [e]"
      using t by simp
    then show ?thesis by (simp add: latest_total_def)
  qed
  have "judge_totals evs a = map (latest_total evs a) (map judge_type ?es)"
    by (simp add: judge_totals_def judge_types_for_def first_seen_distinct_id [OF d])
  also have "\<dots> = map total_score ?es"
    using l by simp
  finally show ?thesis by (simp add: totals_for_def)
qed

lemma check_judge_disagreement_unique_types:
  assumes "distinct (map (\<lambda>e. (target_agent_id e, judge_type e)) evs)"
  shows "check_judge_disagreement evs thr
   = (\<exists>a \<in> target_agent_id ` set evs.
        2 \<le> length (totals_for evs a)
        \<and> thr < Max (set (totals_for evs a)) - Min (set (totals_for evs a)))"
  unfolding check_judge_disagreement_inner inner_disagree judge_totals_unique [OF assms] ..

section \<open>Citations\<close>

lemma first_by_distinct: "distinct (map f (first_by f xs))"
proof (induction xs)
  case Nil
  then show ?case by simp
next
  case (Cons x xs)
  have "distinct (map f (filter (\<lambda>y. f y \<noteq> f x) (first_by f xs)))"
    using Cons.IH by (rule distinct_map_filter)
  then show ?case by auto
qed

lemma first_by_subseq: "subseq (first_by f xs) xs"
proof (induction xs)
  case Nil
  then show ?case by simp
next
  case (Cons x xs)
  have "subseq (filter (\<lambda>y. f y \<noteq> f x) (first_by f xs)) (first_by f xs)"
    by (rule subseq_filter_left)
  from subseq_order.trans [OF this Cons.IH] show ?case by simp
qed

lemma first_by_first:
  "c \<in> set (first_by f xs) \<Longrightarrow> find (\<lambda>d. f d = f c) xs = Some c"
  by (induction xs) auto

lemma fold_dedup_step:
  "fold dedup_step cs (lower ` set u, u)
     = (lower ` set (u @ filter (\<lambda>c. lower c \<notin> lower ` set u) (first_by lower cs)),
        u @ filter (\<lambda>c. lower c \<notin> lower ` set u) (first_by lower cs))"
proof (induction cs arbitrary: u)
  case Nil
  then show ?case by simp
next
  case (Cons c cs)
  let ?P = "\<lambda>x. lower x \<notin> lower ` set u"
  show ?case
  proof (cases "lower c \<in> lower ` set u")
    case True
    have st: "dedup_step c (lower ` set u, u) = (lower ` set u, u)"
      using True by (simp add: dedup_step_def)
    have "filter ?P (filter (\<lambda>y. lower y \<noteq> lower c) (first_by lower cs))
        = filter ?P (first_by lower cs)"
      using True by (auto intro: filter_cong)
    with True have g: "filter ?P (first_by lower (c # cs)) = filter ?P (first_by lower cs)"
      by simp
    have "fold dedup_step (c # cs) (lower ` set u, u) = fold dedup_step cs (lower ` set u, u)"
      by (simp add: st)
    also have "\<dots> = (lower ` set (u @ filter ?P (first_by lower cs)),
        u @ filter ?P (first_by lower cs))"
      by (rule Cons.IH)
    finally show ?thesis unfolding g .
  next
    case False
    let ?Q = "\<lambda>x. lower x \<notin> lower ` set (u @ [c])"
    have st: "dedup_step c (lower ` set u, u) = (lower ` set (u @ [c]), u @ [c])"
      using False by (simp add: dedup_step_def)
    have "filter ?Q (first_by lower cs)
        = filter ?P (filter (\<lambda>y. lower y \<noteq> lower c) (first_by lower cs))"
      by (auto intro: filter_cong)
    with False have g: "u @ filter ?P (first_by lower (c # cs))
        = (u @ [c]) @ filter ?Q (first_by lower cs)"
      by simp
    have "fold dedup_step (c # cs) (lower ` set u, u)
        = fold dedup_step cs (lower ` set (u @ [c]), u @ [c])"
      by (simp add: st)
    also have "\<dots> = (lower ` set ((u @ [c]) @ filter ?Q (first_by lower cs)),
        (u @ [c]) @ filter ?Q (first_by lower cs))"
      by (rule Cons.IH)
    finally show ?thesis unfolding g .
  qed
qed

lemma extract_citations_first_by:
  "extract_citations findall text = take 10 (first_by lower (raw_citations findall text))"
  using fold_dedup_step [of "raw_citations findall text" "[]"]
  by (simp add: extract_citations_def Let_def)

lemma extract_citations_length: "length (extract_citations findall text) \<le> 10"
  by (simp add: extract_citations_first_by)

lemma extract_citations_distinct: "distinct (map lower (extract_citations findall text))"
  using first_by_distinct [of lower "raw_citations findall text"]
  by (simp add: extract_citations_first_by take_map [symmetric])

lemma complete_decision_citations:
  assumes "complete_decision c clock q rs evs dis = Inr d"
  shows "\<exists>text. citations d = extract_citations (c_findall c) text"
  using assms
  by (auto simp: complete_decision_def split: sum.splits prod.splits)

lemma decide_citations:
  assumes "decide c clock q fl = Inr (Decided d, fl')"
  shows "\<exists>text. citations d = extract_citations (c_findall c) text"
proof -
  from assms obtain rs evs where
    "complete_decision c clock q rs evs (check_judge_disagreement evs default_threshold) = Inr d"
    by (auto simp: decide_def Let_def split: if_splits sum.splits)
  then show ?thesis by (rule complete_decision_citations)
qed

text \<open>
  C10. The result of \<open>_extract_citations\<close> is the first ten entries of the list of
  matches with every entry dropped that equals an earlier one when both are lower-cased:
  it has at most 10 entries, no two of them are equal in lower case, it is a subsequence
  of the matches in extraction order, and each entry is the first match with its
  lower-case form. The \<open>citations\<close> of every \<open>Decision\<close> that \<open>decide\<close> returns
  are such a result, so they have at most 10 entries, no two equal in lower case.
\<close>

theorem extract_citations_bounded_dedup:
  "extract_citations findall text = take 10 (first_by lower (raw_citations findall text))
   \<and> length (extract_citations findall text) \<le> 10
   \<and> distinct (map lower (extract_citations findall text))
   \<and> subseq (extract_citations findall text) (raw_citations findall text)
   \<and> (\<forall>c \<in> set (extract_citations findall text).
         find (\<lambda>d. lower d = lower c) (raw_citations findall text) = Some c)
   \<and> (decide cl clock q fl = Inr (Decided dec, fl')
        \<longrightarrow> length (citations dec) \<le> 10 \<and> distinct (map lower (citations dec)))"
proof -
  let ?raw = "raw_citations findall text"
  let ?u = "first_by lower ?raw"
  have e: "extract_citations findall text = take 10 ?u"
    by (rule extract_citations_first_by)
  have d: "distinct (map lower (take 10 ?u))"
    using first_by_distinct [of lower ?raw] by (simp add: take_map [symmetric])
  have "subseq (take 10 ?u) (take 10 ?u @ drop 10 ?u)"
    by (rule subseq_rev_drop_many) simp
  then have "subseq (take 10 ?u) ?u" by simp
  from subseq_order.trans [OF this first_by_subseq]
  have s: "subseq (take 10 ?u) ?raw" .
  have f: "find (\<lambda>d. lower d = lower c) ?raw = Some c" if "c \<in> set (take 10 ?u)" for c
    using that first_by_first [of c lower ?raw] by (auto dest: in_set_takeD)
  have g: "length (citations dec) \<le> 10 \<and> distinct (map lower (citations dec))"
    if "decide cl clock q fl = Inr (Decided dec, fl')"
  proof -
    from decide_citations [OF that] obtain t where
      "citations dec = extract_citations (c_findall cl) t" by blast
    then show ?thesis
      by (simp add: extract_citations_length extract_citations_distinct)
  qed
  from d s f g show ?thesis unfolding e by simp
qed

theorem extract_citations_bounded_dedup_witness:
  "raw_citations findall_example ''text''
     = [''https://who.int/report'', ''HTTPS://WHO.INT/report'', ''the WHO'', ''The who'']
   \<and> extract_citations findall_example ''text'' = [''https://who.int/report'', ''the WHO'']
   \<and> length (extract_citations findall_example ''text'') \<le> 10
   \<and> distinct (map lower (extract_citations findall_example ''text''))
   \<and> (\<exists>dec fl'. decide council_example clock_example ''Which database suits us?'' []
           = Inr (Decided dec, fl')
         \<and> citations dec = [''https://who.int/report'', ''the WHO'']
         \<and> length (citations dec) \<le> 10 \<and> distinct (map lower (citations dec)))"
proof -
  let ?run = "decide council_example clock_example ''Which database suits us?'' []"
  have h1: "raw_citations findall_example ''text''
     = [''https://who.int/report'', ''HTTPS://WHO.INT/report'', ''the WHO'', ''The who'']"
    by (simp add: raw_citations_def findall_example_def)
  have h2: "take 10 (first_by lower (raw_citations findall_example ''text''))
     = [''https://who.int/report'', ''the WHO'']"
    unfolding h1 by code_simp
  have h3: "case ?run of
      Inr (Decided dec, fl') \<Rightarrow> citations dec = [''https://who.int/report'', ''the WHO'']
    | _ \<Rightarrow> False"
    by code_simp
  then obtain dec fl' where run: "?run = Inr (Decided dec, fl')"
    and cit: "citations dec = [''https://who.int/report'', ''the WHO'']"
    by (auto split: sum.splits outcome.splits prod.splits)
  from extract_citations_bounded_dedup
    [of findall_example "''text''" council_example clock_example
      "''Which database suits us?''" "[]" dec fl']
  have a: "extract_citations findall_example ''text''
      = take 10 (first_by lower (raw_citations findall_example ''text''))"
    and b: "length (extract_citations findall_example ''text'') \<le> 10"
    and c: "distinct (map lower (extract_citations findall_example ''text''))"
    and d: "decide council_example clock_example ''Which database suits us?'' []
          = Inr (Decided dec, fl')
        \<longrightarrow> length (citations dec) \<le> 10 \<and> distinct (map lower (citations dec))"
    by blast+
  from a h2 have e: "extract_citations findall_example ''text''
      = [''https://who.int/report'', ''the WHO'']"
    by (simp only:)
  from d run have "length (citations dec) \<le> 10 \<and> distinct (map lower (citations dec))"
    by blast
  with run cit have "\<exists>dec fl'. ?run = Inr (Decided dec, fl')
         \<and> citations dec = [''https://who.int/report'', ''the WHO'']
         \<and> length (citations dec) \<le> 10 \<and> distinct (map lower (citations dec))"
    by blast
  with h1 e b c show ?thesis by blast
qed

section \<open>Risk assessment\<close>

text \<open>
  C8. Whatever \<open>_assess_risk\<close> returns, its list of risks is the collected one (the
  low safety scores, then every flagged issue not yet present) and its level is CRITICAL
  exactly when some risk contains "harmful" or "dangerous" in lower case; otherwise HIGH
  exactly when there are at least 4 risks or the confidence is below 0.4; otherwise MEDIUM
  exactly when there are at least 2 risks or the confidence is below 0.6 or the judges
  disagree; otherwise LOW.
\<close>

theorem assess_risk_levels:
  assumes "assess_risk fmt evs conf dis = (level, risks)"
  shows "risks = collect_risks fmt evs
    \<and> (level = CRITICAL \<longleftrightarrow> (\<exists>r \<in> set risks. harm_marker r))
    \<and> (level = HIGH \<longleftrightarrow>
          \<not> (\<exists>r \<in> set risks. harm_marker r) \<and> (4 \<le> length risks \<or> conf < 4 / 10))
    \<and> (level = MEDIUM \<longleftrightarrow>
          \<not> (\<exists>r \<in> set risks. harm_marker r) \<and> \<not> (4 \<le> length risks \<or> conf < 4 / 10)
          \<and> (2 \<le> length risks \<or> conf < 6 / 10 \<or> dis))
    \<and> (level = LOW \<longleftrightarrow>
          \<not> (\<exists>r \<in> set risks. harm_marker r) \<and> \<not> (4 \<le> length risks \<or> conf < 4 / 10)
          \<and> \<not> (2 \<le> length risks \<or> conf < 6 / 10 \<or> dis))"
  using assms
  by (auto simp: assess_risk_def Let_def list_ex_iff split: if_splits)

theorem assess_risk_levels_witness:
  "assess_risk fmt_example evs_harm (9 / 10) False = (CRITICAL, [''Potentially Harmful advice''])
   \<and> (\<exists>r \<in> set [''Potentially Harmful advice'']. harm_marker r)
   \<and> assess_risk fmt_example evs_two_risks (9 / 10) False = (MEDIUM, [''Missing sources'', ''Vague''])
   \<and> assess_risk fmt_example [] (6 / 10) False = (LOW, [])
   \<and> assess_risk fmt_example [] (3 / 10) False = (HIGH, [])"
proof -
  have h1: "assess_risk fmt_example evs_harm (9 / 10) False
      = (CRITICAL, [''Potentially Harmful advice''])"
    by code_simp
  have h2: "assess_risk fmt_example evs_two_risks (9 / 10) False
      = (MEDIUM, [''Missing sources'', ''Vague''])"
    by code_simp
  have h3: "assess_risk fmt_example [] (6 / 10) False = (LOW, [])" by code_simp
  have h4: "assess_risk fmt_example [] (3 / 10) False = (HIGH, [])" by code_simp
  from assess_risk_levels [OF h1]
  have "\<exists>r \<in> set [''Potentially Harmful advice'']. harm_marker r" by blast
  with h1 h2 h3 h4 show ?thesis by blast
qed

section \<open>Audit log\<close>

text \<open>
  C2. The entry written for a \<open>Decision\<close> carries \<open>full_decision =
  decision.to_dict()\<close>, and \<open>to_dict\<close> has the key "query": the literal query is
  among the strings of the written record, next to its hash.
\<close>

theorem audit_entry_contains_query:
  "query d \<in> set (json_strings (audit_entry ops sha256_hex log_now (Decided d)))"
  by (simp add: audit_entry_def dict_update_def decision_to_dict_def)

text \<open>
  The record written for an example decision with the query "my salary is 100", and the
  parts of the claim that hold: the hash is the first 16 characters of the digest of the
  query alone, and the record of a blocked query holds the hash, the reason and the
  matched patterns.
\<close>

theorem audit_entry_example:
  "json_strings (audit_entry double_ops sha_example ''2025-01-01T00:00:01'' (Decided decision_example))
   = [''2025-01-01T00:00:01'', ''1a2b3c4d'', ''0000000000000000'', ''decision'',
      ''Analytical Agent'', ''LOW'', ''1a2b3c4d'', ''2025-01-01T00:00:00'',
      ''my salary is 100'', ''agent_analytical'', ''Analytical Agent'',
      ''answer of agent_analytical'', ''agent_analytical'', ''Analytical Agent'',
      ''answer of agent_analytical'', ''LOW'', ''best'', []]"
  by code_simp

lemma audit_entry_query_hash:
  "\<exists>rest. audit_entry ops sha256_hex log_now (Decided d)
     = JDict ((''log_timestamp'', JStr log_now) # (''decision_id'', JStr (decision_id d))
              # (''query_hash'', JStr (take 16 (sha256_hex (query d)))) # rest)"
  by (simp add: audit_entry_def dict_update_def hash_query_def)

lemma audit_entry_blocked_strings:
  "json_strings (audit_entry ops sha256_hex log_now (Blocked b))
     = [log_now, b_decision_id b, take 16 (sha256_hex (b_query b)), ''blocked'', block_reason b]
       @ b_matched_patterns b"
proof -
  have "concat (map (\<lambda>x. json_strings (JStr x)) xs) = xs" for xs
    by (induction xs) auto
  then show ?thesis
    by (simp add: audit_entry_def dict_update_def hash_query_def comp_def)
qed

section \<open>The retry branch\<close>

lemma retry_step_result:
  assumes "retry_step c q sel rs evs conf refined = Inr (refined', retried, feedback, conf')"
  shows "(retried \<longleftrightarrow>
            conf < confidence_threshold c \<and> 0 < max_retries c \<and> get_judge_feedback evs sel \<noteq> [])
    \<and> conf' = (if retried then min 1 (conf + 1 / 10) else conf)
    \<and> (retried \<longrightarrow> feedback = get_judge_feedback evs sel
          \<and> c_synthesizer c q sel rs feedback = Inr refined')
    \<and> (\<not> retried \<longrightarrow> refined' = refined \<and> feedback = [])"
  using assms
  by (auto simp: retry_step_def Let_def split: if_splits sum.splits)

lemma complete_decision_result:
  assumes "complete_decision c clock q rs evs dis = Inr d"
  shows "\<exists>sel conf why.
      select_best (c_float_ops c) (c_formatters c) rs evs = Inr (sel, conf, why)
      \<and> agent_responses d = rs \<and> judge_evaluations d = evs \<and> selected_response d = sel
      \<and> (was_retried d \<longleftrightarrow>
            conf < confidence_threshold c \<and> 0 < max_retries c \<and> get_judge_feedback evs sel \<noteq> [])
      \<and> confidence_score d = (if was_retried d then min 1 (conf + 1 / 10) else conf)"
proof -
  from assms obtain sel conf why where
    s: "select_best (c_float_ops c) (c_formatters c) rs evs = Inr (sel, conf, why)"
    by (auto simp: complete_decision_def split: sum.splits)
  from assms s obtain refined flag where
    y: "synthesis_step c q sel rs = Inr (refined, flag)"
    by (auto simp: complete_decision_def split: sum.splits)
  from assms s y obtain refined' retried feedback conf' where
    r: "retry_step c q sel rs evs conf refined = Inr (refined', retried, feedback, conf')"
    by (auto simp: complete_decision_def split: sum.splits)
  from assms s y r have d: "agent_responses d = rs" "judge_evaluations d = evs"
    "selected_response d = sel" "was_retried d = retried" "confidence_score d = conf'"
    by (auto simp: complete_decision_def split: prod.splits)
  from retry_step_result [OF r] s d show ?thesis by auto
qed

text \<open>
  C4. In every run of \<open>decide\<close> that yields a \<open>Decision\<close>, with the selection
  having returned the response \<open>sel\<close> and the confidence \<open>conf\<close>: the decision is
  marked retried if and only if \<open>conf\<close> is below the confidence threshold, the retry
  budget is positive and the feedback aggregated from the evaluations of \<open>sel\<close> is not
  the empty string; when it is retried the final confidence is \<open>min(1.0, conf + 0.1)\<close>,
  otherwise it is \<open>conf\<close>; with empty feedback there is no retry.
\<close>

theorem decide_retry:
  assumes "decide c clock q file = Inr (Decided d, file')"
  shows "\<exists>sel conf why.
      select_best (c_float_ops c) (c_formatters c) (agent_responses d) (judge_evaluations d) = Inr (sel, conf, why)
      \<and> selected_response d = sel
      \<and> (was_retried d \<longleftrightarrow>
            conf < confidence_threshold c \<and> 0 < max_retries c
            \<and> get_judge_feedback (judge_evaluations d) sel \<noteq> [])
      \<and> (was_retried d \<longrightarrow> confidence_score d = min 1 (conf + 1 / 10))
      \<and> (\<not> was_retried d \<longrightarrow> confidence_score d = conf)
      \<and> (get_judge_feedback (judge_evaluations d) sel = [] \<longrightarrow> \<not> was_retried d)"
proof -
  from assms obtain rs evs where
    cd: "complete_decision c clock q rs evs (check_judge_disagreement evs default_threshold) = Inr d"
    by (auto simp: decide_def Let_def split: if_splits sum.splits)
  from complete_decision_result [OF cd] show ?thesis by auto
qed

theorem decide_retry_witness:
  "\<exists>d file'. decide council_example clock_example ''Which database suits us?'' [] = Inr (Decided d, file')
     \<and> select_best double_ops fmt_example (agent_responses d) (judge_evaluations d)
         = Inr (r_analytical, 5 / 10, selection_reasoning d)
     \<and> get_judge_feedback (judge_evaluations d) r_analytical
         = ''Factuality Judge: Missing sources | Safety Judge: reasons''
     \<and> was_retried d \<and> confidence_score d = 6 / 10"
proof -
  let ?run = "decide council_example clock_example ''Which database suits us?'' []"
  have e: "case ?run of
      Inr (Decided d, file') \<Rightarrow>
        select_best double_ops fmt_example (agent_responses d) (judge_evaluations d)
          = Inr (r_analytical, 5 / 10, selection_reasoning d)
        \<and> get_judge_feedback (judge_evaluations d) r_analytical
            = ''Factuality Judge: Missing sources | Safety Judge: reasons''
    | _ \<Rightarrow> False"
    by code_simp
  then obtain d file' where run: "?run = Inr (Decided d, file')"
    and sel: "select_best double_ops fmt_example (agent_responses d) (judge_evaluations d)
          = Inr (r_analytical, 5 / 10, selection_reasoning d)"
    and fb: "get_judge_feedback (judge_evaluations d) r_analytical
            = ''Factuality Judge: Missing sources | Safety Judge: reasons''"
    by (auto split: sum.splits outcome.splits prod.splits)
  have fe: "c_formatters council_example = fmt_example"
    and fo: "c_float_ops council_example = double_ops"
    and th: "confidence_threshold council_example = 6 / 10"
    and mr: "max_retries council_example = 1"
    by (simp_all add: council_example_def)
  from decide_retry [OF run] sel fb have "was_retried d \<and> confidence_score d = 6 / 10"
    by (auto simp: fe fo th mr)
  with run sel fb show ?thesis by blast
qed

section \<open>Staged execution: the order of stages\<close>

















text \<open>
  C9 as the specification states it fails: a judge whose API key is not set raises
  \<open>ValueError\<close> from \<open>_ensure_initialized\<close>, outside any \<open>try\<close>, when the generator
  is resumed after the last agents event. With such judges and a query that the gate
  accepts, the labels emitted are start, agents, agents, agents, the generator then
  raises, and this sequence is none of the two that the specification allows.
\<close>

theorem decide_generator_stages_counterexample:
  "passed (check (c_search council_no_key) (c_gate council_no_key) ''Which database suits us?'')
   \<and> map stage (fst (decide_generator council_no_key clock_example ''Which database suits us?'' 7 []))
       = [''start'', ''agents'', ''agents'', ''agents'']
   \<and> snd (decide_generator council_no_key clock_example ''Which database suits us?'' 7 [])
       = Raised ValueError
   \<and> \<not> valid_stages
       (map stage (fst (decide_generator council_no_key clock_example ''Which database suits us?'' 7 [])))"
proof -
  have h1: "passed (check (c_search council_no_key) (c_gate council_no_key)
      ''Which database suits us?'')"
    by code_simp
  have "map_prod (map stage) id
        (decide_generator council_no_key clock_example ''Which database suits us?'' 7 [])
      = ([''start'', ''agents'', ''agents'', ''agents''], Raised ValueError)"
    by code_simp
  then have h2: "map stage (fst (decide_generator council_no_key clock_example
        ''Which database suits us?'' 7 []))
      = [''start'', ''agents'', ''agents'', ''agents'']"
    and h3: "snd (decide_generator council_no_key clock_example ''Which database suits us?'' 7 [])
      = Raised ValueError"
    by (simp_all add: map_prod_def split: prod.splits)
  have h4: "\<not> valid_stages [''start'', ''agents'', ''agents'', ''agents'']"
  proof
    assume "valid_stages [''start'', ''agents'', ''agents'', ''agents'']"
    then obtain m where
      "[''start'', ''agents'', ''agents'', ''agents'']
         = ''start'' # replicate m ''agents'' @ [''judges'', ''final'']"
      by (auto simp: valid_stages_def)
    then have "last [''start'', ''agents'', ''agents'', ''agents'']
         = last (''start'' # replicate m ''agents'' @ [''judges'', ''final''])"
      by (rule arg_cong)
    then show False by simp
  qed
  from h1 h2 h3 h4 show ?thesis by simp
qed

section \<open>Safety gate: keywords without surrounding white space\<close>

text \<open>
  For a keyword that neither begins nor ends with white space, \<open>strip()\<close> cannot remove
  any part of an occurrence, and a query that contains the keyword is blocked as it
  stands.
\<close>

lemma is_space_lower_char: "is_space (lower_char c) = is_space c"
proof -
  have m: "(of_char (char_of (n + 32 :: nat)) :: nat) = n + 32" if "n \<le> 222" for n
    using that by simp
  show ?thesis
    unfolding is_space_def lower_char_def Let_def
    by (auto simp: m)
qed

lemma strip_lower: "strip (lower s) = lower (strip s)"
proof -
  have c: "is_space \<circ> lower_char = is_space"
    by (simp add: fun_eq_iff is_space_lower_char)
  have dw: "dropWhile is_space (map lower_char xs) = map lower_char (dropWhile is_space xs)"
    for xs by (simp add: dropWhile_map c)
  show ?thesis
    by (simp add: strip_def lower_def dw rev_map)
qed

lemma dropWhile_keeps:
  assumes "k \<noteq> []" and "\<not> P (hd k)"
  shows "\<exists>pre'. dropWhile P (pre @ k @ post) = pre' @ k @ post"
proof (induction pre)
  case Nil
  from assms have "dropWhile P (k @ post) = k @ post"
    by (cases k) auto
  then show ?case by auto
next
  case (Cons x pre)
  show ?case
  proof (cases "P x")
    case True
    with Cons.IH show ?thesis by simp
  next
    case False
    then have "dropWhile P ((x # pre) @ k @ post) = (x # pre) @ k @ post" by simp
    then show ?thesis by blast
  qed
qed

lemma sublist_strip:
  assumes s: "sublist k s" and ne: "k \<noteq> []"
    and h: "\<not> is_space (hd k)" and l: "\<not> is_space (last k)"
  shows "sublist k (strip s)"
proof -
  from s obtain pre post where e: "s = pre @ k @ post"
    by (auto simp: sublist_def)
  from dropWhile_keeps [where k = k and P = is_space and pre = pre and post = post, OF ne h]
  obtain pre' where
    a: "dropWhile is_space s = pre' @ k @ post"
    unfolding e by blast
  have rk: "rev k \<noteq> []" and hr: "\<not> is_space (hd (rev k))"
    using ne l by (simp_all add: hd_rev)
  from dropWhile_keeps [where k = "rev k" and P = is_space and pre = "rev post"
      and post = "rev pre'", OF rk hr]
  obtain post' where
    b: "dropWhile is_space (rev post @ rev k @ rev pre') = post' @ rev k @ rev pre'"
    by blast
  have "strip s = pre' @ k @ rev post'"
    by (simp add: strip_def a b)
  then show ?thesis
    by (auto simp: sublist_def)
qed

lemma check_blocks_unpadded_keyword:
  assumes "k \<in> set (blocked_keywords g)"
    and "str_in (lower k) (lower q)"
    and "k \<noteq> []" and "\<not> is_space (hd k)" and "\<not> is_space (last k)"
  shows "\<not> passed (check re_search g q)"
proof -
  have ne: "lower k \<noteq> []" using assms(3) by (simp add: lower_def)
  have h: "\<not> is_space (hd (lower k))"
    using assms(3,4) by (simp add: lower_def hd_map is_space_lower_char)
  have l: "\<not> is_space (last (lower k))"
    using assms(3,5) by (simp add: lower_def last_map is_space_lower_char)
  from assms(2) have "sublist (lower k) (lower q)" by (simp add: str_in_def)
  from sublist_strip [OF this ne h l] have "str_in (lower k) (lower (strip q))"
    by (simp add: str_in_def strip_lower)
  obtain k' where f: "find (\<lambda>keyword. str_in (lower keyword) (lower (strip q)))
      (blocked_keywords g) = Some k'"
    using find_keyword_Some [OF assms(1), of "\<lambda>keyword. str_in (lower keyword) (lower (strip q))"]
      \<open>str_in (lower k) (lower (strip q))\<close> by blast
  show ?thesis
    by (simp add: check_def Let_def f)
qed

section \<open>Selection: the order of the panel\<close>

text \<open>
  \<open>run_judges_on_responses\<close> concatenates, judge by judge, one evaluation per response
  in the order of the responses. On such a list the order in which the agents are first
  named is the order of the responses.
\<close>

lemma first_seen_append_subset:
  "set ys \<subseteq> set xs \<Longrightarrow> first_seen (xs @ ys) = first_seen xs"
proof (induction ys rule: rev_induct)
  case Nil
  then show ?case by simp
next
  case (snoc y ys)
  then have "y \<in> set (xs @ ys)" and "set ys \<subseteq> set xs" by auto
  with snoc.IH show ?case
    using first_seen_snoc [of "xs @ ys" y] by simp
qed

lemma first_seen_repeated:
  "js \<noteq> [] \<Longrightarrow> first_seen (concat (map (\<lambda>j. xs) js)) = first_seen xs"
proof (induction js)
  case Nil
  then show ?case by simp
next
  case (Cons j js)
  have "set (concat (map (\<lambda>j. xs) js)) \<subseteq> set xs" by auto
  from first_seen_append_subset [OF this] show ?case by simp
qed

lemma evaluated_agents_panel_order:
  assumes "judges \<noteq> []"
    and "\<And>j r. target_agent_id (E j r) = agent_id r"
  shows "evaluated_agents (concat (map (\<lambda>j. map (E j) responses) judges))
     = first_seen (map agent_id responses)"
proof -
  have "map target_agent_id (concat (map (\<lambda>j. map (E j) responses) judges))
      = concat (map (\<lambda>j. map agent_id responses) judges)"
    by (induction judges) (simp_all add: assms(2))
  then show ?thesis
    unfolding evaluated_agents_def
    by (simp add: first_seen_repeated [OF assms(1)])
qed

end
